theory Spec2Isabelle
  imports Complex_Main "HOL-Library.Word" "HOL-Library.Monad_Syntax" "HOL-Library.Sublist"
begin

unbundle bit_operations_syntax

section \<open>Python values\<close>

text \<open>
  A \<^verbatim>\<open>bytes\<close> or \<^verbatim>\<open>bytearray\<close> object is a list of 8-bit words; reading an element
  gives a Python \<^verbatim>\<open>int\<close>, written \<open>uint b\<close>. Python integers are unbounded: \<open>int\<close>.
  A function that can raise returns an \<open>option\<close> whose \<open>None\<close> is the raised
  \<^verbatim>\<open>IndexError\<close>; Python's own \<^verbatim>\<open>None\<close> value is the \<open>None\<close> of an inner option.
  Lengths and offsets are never negative in the code below (each subtraction is guarded
  by a length test before it), so they are \<open>nat\<close>.
\<close>

type_synonym byte = "8 word"

definition getitem :: "'a list \<Rightarrow> nat \<Rightarrow> 'a option" where
  \<comment> \<open>\<^verbatim>\<open>xs[i]\<close> for \<open>i \<ge> 0\<close>: raises IndexError out of range\<close>
  "getitem xs i = (if i < length xs then Some (xs ! i) else None)"

definition setitem :: "'a list \<Rightarrow> nat \<Rightarrow> 'a \<Rightarrow> 'a list option" where
  \<comment> \<open>\<^verbatim>\<open>xs[i] = v\<close> for \<open>i \<ge> 0\<close>: raises IndexError out of range\<close>
  "setitem xs i v = (if i < length xs then Some (xs[i := v]) else None)"

definition setslice :: "'a list \<Rightarrow> nat \<Rightarrow> nat \<Rightarrow> 'a list \<Rightarrow> 'a list" where
  \<comment> \<open>\<^verbatim>\<open>xs[i:j] = ys\<close> for \<open>0 \<le> i \<le> j\<close>: never raises, the list may change length\<close>
  "setslice xs i j ys = take i xs @ ys @ drop j xs"

section \<open>alp_msg.py: the frame codec\<close>

definition SOH :: byte where "SOH = 0x01"
definition PI1 :: byte where "PI1 = 0x41"
definition PI2 :: byte where "PI2 = 0x32"
definition STX :: byte where "STX = 0x02"
definition ETX :: byte where "ETX = 0x03"

definition Encode :: "int \<Rightarrow> byte list" where
  \<comment> \<open>\<^verbatim>\<open>b &= 0xff; return bytes([(b >> 4) + 0x30, (b & 0x0f) + 0x30])\<close>\<close>
  "Encode b = (let b' = b AND 0xff in
     [word_of_int (drop_bit 4 b' + 0x30), word_of_int ((b' AND 0x0f) + 0x30)])"

fun EncodeData_loop ::
  "byte list \<Rightarrow> nat \<Rightarrow> byte list \<Rightarrow> int \<Rightarrow> int \<Rightarrow> (byte list \<times> int \<times> int) option" where
  \<comment> \<open>the loop \<^verbatim>\<open>for i in range(offset, offset + need_len, 2)\<close>: one round per element
      of \<open>data\<close> (\<^verbatim>\<open>data[j]\<close>, \<^verbatim>\<open>j += 1\<close>), the third argument being \<^verbatim>\<open>data[j:]\<close>\<close>
  "EncodeData_loop buffer i [] chksum chkpar = Some (buffer, chksum, chkpar)"
| "EncodeData_loop buffer i (d # ds) chksum chkpar = do {
     let buffer' = setslice buffer i (i + 2) (Encode (uint d));
     b0 \<leftarrow> getitem buffer' i;
     b1 \<leftarrow> getitem buffer' (i + 1);
     let chksum' = chksum + (uint b0 + uint b1);
     let chkpar' = (chkpar XOR uint b0) XOR uint b1;
     EncodeData_loop buffer' (i + 2) ds chksum' chkpar'
   }"

definition EncodeData ::
  "byte list \<Rightarrow> nat \<Rightarrow> byte list \<Rightarrow> (byte list \<times> int \<times> int) option" where
  \<comment> \<open>returns the buffer as the call leaves it, with the pair \<^verbatim>\<open>(chksum, chkpar)\<close>\<close>
  "EncodeData buffer offset data =
     (let buf_len = length buffer; need_len = length data * 2 in
      if int buf_len - int offset < int need_len then Some (buffer, 0, 0)
      else do {
        (buffer', chksum, chkpar) \<leftarrow> EncodeData_loop buffer offset data 0 0;
        Some (buffer', chksum AND 0xff, chkpar)
      })"

definition Decode :: "int \<Rightarrow> int \<Rightarrow> int option" where
  "Decode b0 b1 =
     (if b0 < 0x30 \<or> 0x3f < b0 \<or> b1 < 0x30 \<or> 0x3f < b1 then None
      else Some (push_bit 4 (b0 - 0x30) OR (b1 - 0x30)))"

definition preamble_at :: "byte list \<Rightarrow> nat \<Rightarrow> bool option" where
  \<comment> \<open>\<^verbatim>\<open>data[i] == SOH and data[i+1] == PI1 and data[i+2] == PI2\<close>, left to right\<close>
  "preamble_at data i = do {
     b0 \<leftarrow> getitem data i;
     if b0 \<noteq> SOH then Some False
     else do {
       b1 \<leftarrow> getitem data (i + 1);
       if b1 \<noteq> PI1 then Some False
       else do { b2 \<leftarrow> getitem data (i + 2); Some (b2 = PI2) }
     }
   }"

fun find_start :: "byte list \<Rightarrow> nat \<Rightarrow> nat \<Rightarrow> nat option" where
  \<comment> \<open>\<^verbatim>\<open>start = dlen; for i in range(dlen - 9 + 1): ...; start = i; break\<close>:
      \<open>find_start data i k\<close> runs the \<open>k\<close> rounds that remain from index \<open>i\<close> on\<close>
  "find_start data i 0 = Some (length data)"
| "find_start data i (Suc k) = do {
     m \<leftarrow> preamble_at data i;
     if m then Some i else find_start data (Suc i) k
   }"

datatype scan =
    Returned "nat \<times> bool \<times> byte list option"  \<comment> \<open>\<^verbatim>\<open>return\<close> inside the loop\<close>
  | Broke nat int int "byte list"  \<comment> \<open>\<^verbatim>\<open>break\<close>: offset, chksum, chkpar, snap_frame\<close>
  | Exhausted int int "byte list"  \<comment> \<open>the range ran out: chksum, chkpar, snap_frame\<close>

function scan_loop ::
  "byte list \<Rightarrow> nat \<Rightarrow> nat \<Rightarrow> int \<Rightarrow> int \<Rightarrow> byte list \<Rightarrow> nat \<Rightarrow> scan option" where
  \<comment> \<open>\<^verbatim>\<open>for i in range(offset, (dlen // 2) * 2 - 2, 2)\<close>, from index \<open>i\<close> up to \<open>stop\<close>\<close>
  "scan_loop data i stop chksum chkpar snap_frame j =
     (if i < stop then do {
        d0 \<leftarrow> getitem data i;
        if d0 = ETX then Some (Broke i (chksum AND 0xff) chkpar (take j snap_frame))
        else do {
          d1 \<leftarrow> getitem data (i + 1);
          let chksum' = chksum + (uint d0 + uint d1);
          let chkpar' = (chkpar XOR uint d0) XOR uint d1;
          case Decode (uint d0) (uint d1) of
            None \<Rightarrow> Some (Returned (i, True, None))
          | Some b \<Rightarrow> do {
              snap_frame' \<leftarrow> setitem snap_frame j (word_of_int b);
              scan_loop data (i + 2) stop chksum' chkpar' snap_frame' (j + 1)
            }
        }
      }
      else Some (Exhausted chksum chkpar snap_frame))"
  by pat_completeness auto
termination
  by (relation "measure (\<lambda>(data, i, stop, chksum, chkpar, snap_frame, j). stop - i)") auto

definition Parse_tail ::
  "byte list \<Rightarrow> nat \<Rightarrow> nat \<Rightarrow> int \<Rightarrow> int \<Rightarrow> byte list
     \<Rightarrow> (nat \<times> bool \<times> byte list option) option" where
  \<comment> \<open>the statements after the loop, from \<^verbatim>\<open>if data[offset] != ETX or dlen - 5 < offset\<close>\<close>
  "Parse_tail data start offset chksum chkpar snap_frame =
     (let dlen = length data in do {
        e \<leftarrow> getitem data offset;
        if e \<noteq> ETX \<or> dlen - 5 < offset then Some (start, False, None)
        else do {
          c1 \<leftarrow> getitem data (offset + 1);
          c2 \<leftarrow> getitem data (offset + 2);
          let fcs = Decode (uint c1) (uint c2);
          c3 \<leftarrow> getitem data (offset + 3);
          c4 \<leftarrow> getitem data (offset + 4);
          let fcp = Decode (uint c3) (uint c4);
          if fcs = None \<or> fcp = None then Some (offset, True, None)
          else if fcs \<noteq> Some chksum \<or> fcp \<noteq> Some chkpar then Some (offset + 5, True, None)
          else Some (offset + 5, False, Some snap_frame)
        }
      })"

definition Parse :: "byte list \<Rightarrow> (nat \<times> bool \<times> byte list option) option" where
  \<comment> \<open>the result is \<^verbatim>\<open>(consumed, nack, frame)\<close>\<close>
  "Parse data =
     (let dlen = length data in
      if dlen < 9 then Some (0, False, None)
      else do {
        start \<leftarrow> find_start data 0 (dlen - 9 + 1);
        if start > dlen - 9 then Some (dlen, False, None)
        else do {
          h \<leftarrow> getitem data (start + 3);
          if h \<noteq> STX then Some (start + 4, True, None)
          else do {
            let snap_frame = replicate ((dlen - start - 4) div 2) (0 :: byte);
            let offset = start + 4;
            r \<leftarrow> scan_loop data offset ((dlen div 2) * 2 - 2) 0 0 snap_frame 0;
            case r of
              Returned res \<Rightarrow> Some res
            | Broke offset' chksum chkpar snap_frame' \<Rightarrow>
                Parse_tail data start offset' chksum chkpar snap_frame'
            | Exhausted chksum chkpar snap_frame' \<Rightarrow>
                Parse_tail data start offset chksum chkpar snap_frame'
          }
        }
      })"

definition Write :: "byte list \<Rightarrow> byte list option" where
  "Write snap_frame =
     (let fsize = 4 + length snap_frame * 2 + 5;
          frame = replicate fsize (0 :: byte);
          frame = setslice frame 0 3 [0x01, 0x41, 0x32] in do {
        frame \<leftarrow> setitem frame 3 STX;
        (frame, fcs, fcp) \<leftarrow> EncodeData frame 4 snap_frame;
        frame \<leftarrow> setitem frame (fsize - 5) ETX;
        let frame = setslice frame (fsize - 4) (fsize - 2) (Encode fcs);
        let frame = setslice frame (fsize - 2) fsize (Encode fcp);
        Some frame
      })"

section \<open>The wire format, for the proofs\<close>

text \<open>
  The data field of a frame is the payload with every byte replaced by its two
  nibble-bytes; the checksum is the sum of the data field modulo 256 and the parity its
  exclusive-or. \<open>frame_of p\<close> is the frame that carries \<open>p\<close>, written out
  as a list; \<open>Write_eq\<close> below shows that \<open>Write\<close> computes it.
\<close>

definition nibbles :: "byte list \<Rightarrow> byte list" where
  "nibbles p = concat (map (\<lambda>d. Encode (uint d)) p)"

definition sum_bytes :: "byte list \<Rightarrow> int" where
  "sum_bytes xs = sum_list (map uint xs)"

definition xor_bytes :: "int \<Rightarrow> byte list \<Rightarrow> int" where
  "xor_bytes k xs = foldl (\<lambda>a b. a XOR uint b) k xs"

definition frame_of :: "byte list \<Rightarrow> byte list" where
  "frame_of p = [SOH, PI1, PI2, STX] @ nibbles p @ [ETX]
      @ Encode (sum_bytes (nibbles p) AND 0xff) @ Encode (xor_bytes 0 (nibbles p))"

section \<open>Collaborators that are not in the source tree\<close>

text \<open>
  \<^verbatim>\<open>alp.py\<close> imports \<^verbatim>\<open>PortBase\<close> and \<^verbatim>\<open>SNAPMsg\<close> from modules that are not part of
  the sources at hand. What the session layer needs from them is modelled here from the
  specification; the time of day, read with \<^verbatim>\<open>time.time()\<close>, is an argument \<open>now\<close>
  of every handler (one reading for each run of a handler).
\<close>

record snap_msg =
  snap_more :: bool
  snap_message_counter :: int
  snap_service_class :: int
  snap_message_type :: int
  snap_system_id :: int
  snap_terminal_id :: int
  snap_loop_id :: int
  snap_event_time :: int
  snap_data :: "byte list"
  snap_empty :: bool
\<comment> \<open>Modelled from the spec: the class \<^verbatim>\<open>SNAPMsg\<close> of \<^verbatim>\<open>snap_msg.py\<close>, with the attributes
    section 3 lists for a SnapMessage.\<close>

record uplink_alarm =
  alarm_more :: string
  alarm_msgCounter :: int
  alarm_serviceClass :: int
  alarm_msgType :: int
  alarm_systemId :: int
  alarm_terminalId :: int
  alarm_loopId :: int
  alarm_eventTime :: int
  alarm_data :: string
\<comment> \<open>the dictionary that \<^verbatim>\<open>alp_messages.UplinkAlarm\<close> builds; the numbers are kept as
    numbers where the source stores their decimal rendering \<^verbatim>\<open>"{}".format(n)\<close>\<close>

datatype notification =
    FaultDetected string string  \<comment> \<open>\<^verbatim>\<open>send_fault_detected(tag, text)\<close>\<close>
  | FaultOver string  \<comment> \<open>\<^verbatim>\<open>send_fault_over(text)\<close>\<close>
  | CloudAlarm uplink_alarm string  \<comment> \<open>\<^verbatim>\<open>send_cloud_alarm(data=..., content=...)\<close>\<close>

datatype session =
  SESSION_IDLE | SESSION_ACTIVE_MASTER | SESSION_ACTIVE_CLIENT | SESSION_FINISHED

datatype message_state =
    MESSAGE_STATE_CREATED | MESSAGE_STATE_SENT | MESSAGE_STATE_ACKED
  | MESSAGE_STATE_NACKED | MESSAGE_STATE_NO_REPLY | MESSAGE_STATE_SEND_FAILED

record port_state =
  port :: bool  \<comment> \<open>\<^verbatim>\<open>self.port\<close> is set: the serial port is open\<close>
  diag_timer :: bool  \<comment> \<open>the diagnostic timer is registered\<close>
  rx_buffer :: "byte list"
  port_writes :: "byte list list"  \<comment> \<open>the buffers handed to \<^verbatim>\<open>self.write\<close>, oldest first\<close>
  notifications :: "notification list"  \<comment> \<open>what went to the alarm sink, oldest first\<close>
  serial_snap_proto :: string
  message_counter :: int
  session_state :: session
  downlink_buffer :: "byte list"
  downlink_retransmit_count :: int
  latest_downlink_event_time :: real
  latest_uplink_event_time :: real
  active_faults :: "string list"
  line_fault_over_msg_sent :: bool

definition write_port :: "byte list \<Rightarrow> port_state \<Rightarrow> port_state" where
  \<comment> \<open>Modelled from the spec: \<^verbatim>\<open>PortBase.write\<close>; the serial port is a byte-stream sink
      (section 1), so a write hands its buffer to the sink. (The name \<open>write\<close> is taken
      in Isabelle.)\<close>
  "write_port buf s = s\<lparr>port_writes := port_writes s @ [buf]\<rparr>"

definition consume_rx_buffer :: "nat \<Rightarrow> port_state \<Rightarrow> port_state" where
  \<comment> \<open>Modelled from the spec: \<^verbatim>\<open>PortBase.consume_rx_buffer\<close>; section 4.2,
      \<^verbatim>\<open>consume(n)\<close> drops the first \<open>n\<close> bytes.\<close>
  "consume_rx_buffer n s = s\<lparr>rx_buffer := drop n (rx_buffer s)\<rparr>"

definition clear_rx_buffer :: "port_state \<Rightarrow> port_state" where
  \<comment> \<open>Modelled from the spec: \<^verbatim>\<open>PortBase.clear_rx_buffer\<close>; section 4.2, the caller
      clears the buffer.\<close>
  "clear_rx_buffer s = s\<lparr>rx_buffer := []\<rparr>"

definition send_fault_detected :: "string \<Rightarrow> string \<Rightarrow> port_state \<Rightarrow> port_state" where
  \<comment> \<open>Modelled from the spec: \<^verbatim>\<open>PortBase.send_fault_detected\<close>; section 7, a
      fault-detected notification goes upward.\<close>
  "send_fault_detected tag text s = s\<lparr>notifications := notifications s @ [FaultDetected tag text]\<rparr>"

definition send_fault_over :: "string \<Rightarrow> port_state \<Rightarrow> port_state" where
  \<comment> \<open>Modelled from the spec: \<^verbatim>\<open>PortBase.send_fault_over\<close>; section 4.3, a fault-over
      notification is emitted.\<close>
  "send_fault_over text s = s\<lparr>notifications := notifications s @ [FaultOver text]\<rparr>"

definition send_cloud_alarm :: "uplink_alarm \<Rightarrow> string \<Rightarrow> port_state \<Rightarrow> port_state" where
  \<comment> \<open>Modelled from the spec: \<^verbatim>\<open>PortBase.send_cloud_alarm\<close>; section 4.4, the record is
      forwarded to the alarm sink.\<close>
  "send_cloud_alarm alarm content s = s\<lparr>notifications := notifications s @ [CloudAlarm alarm content]\<rparr>"

section \<open>alp_messages.py\<close>

definition UplinkAlarm :: "snap_msg \<Rightarrow> uplink_alarm" where
  "UplinkAlarm snap_msg = \<lparr>
     alarm_more = (if snap_more snap_msg then ''1'' else ''0''),
     alarm_msgCounter = snap_message_counter snap_msg,
     alarm_serviceClass = snap_service_class snap_msg,
     alarm_msgType = snap_message_type snap_msg,
     alarm_systemId = snap_system_id snap_msg,
     alarm_terminalId = snap_terminal_id snap_msg,
     alarm_loopId = snap_loop_id snap_msg,
     alarm_eventTime = snap_event_time snap_msg,
     alarm_data = map (\<lambda>i. char_of (uint i)) (snap_data snap_msg) \<rparr>"

definition remove_cr :: "string \<Rightarrow> string" where
  \<comment> \<open>\<^verbatim>\<open>.replace('\r', '')\<close>\<close>
  "remove_cr text = filter (\<lambda>c. c \<noteq> CHR 0x0D) text"

section \<open>alp.py: the session layer\<close>

definition ACK :: "byte list" where "ACK = [0x06]"
definition NAK :: "byte list" where "NAK = [0x15]"
definition ENQ :: "byte list" where "ENQ = [0x05]"
definition EOT :: "byte list" where "EOT = [0x04]"

definition RESEND_LIMIT :: int where "RESEND_LIMIT = 10"
definition RESEND_LIMIT_NAK :: int where "RESEND_LIMIT_NAK = 5"
definition RX_BUFFER_MAX_LEN :: nat where "RX_BUFFER_MAX_LEN = 1024"

definition init :: "string \<Rightarrow> real \<Rightarrow> bool \<Rightarrow> port_state" where
  \<comment> \<open>\<^verbatim>\<open>AlpPort.__init__\<close>; \<open>opened\<close> is the result of \<^verbatim>\<open>self.open()\<close>\<close>
  "init proto current_time opened = \<lparr>
     port = opened,
     diag_timer = opened,
     rx_buffer = [],
     port_writes = [],
     notifications = [],
     serial_snap_proto = proto,
     message_counter = 0,
     session_state = SESSION_IDLE,
     downlink_buffer = [],
     downlink_retransmit_count = 0,
     latest_downlink_event_time = current_time,
     latest_uplink_event_time = current_time,
     active_faults = [],
     line_fault_over_msg_sent = False \<rparr>"

definition session_is_active :: "port_state \<Rightarrow> bool" where
  "session_is_active s =
     (if session_state s = SESSION_IDLE \<or> session_state s = SESSION_FINISHED then False else True)"

definition session_begin :: "session \<Rightarrow> port_state \<Rightarrow> port_state" where
  "session_begin state s = s\<lparr>session_state := state, downlink_buffer := []\<rparr>"

definition session_finish :: "port_state \<Rightarrow> port_state" where
  "session_finish s =
     s\<lparr>downlink_retransmit_count := 0, downlink_buffer := [], session_state := SESSION_FINISHED\<rparr>"

definition transmit :: "byte list \<Rightarrow> real \<Rightarrow> port_state \<Rightarrow> port_state option" where
  \<comment> \<open>\<open>payload\<close> is \<^verbatim>\<open>snap_msg.write()\<close>, the serialised message\<close>
  "transmit payload now s =
     (if \<not> port s then Some s
      else do {
        let s = (if session_is_active s = False then session_begin SESSION_ACTIVE_MASTER s else s);
        frame \<leftarrow> Write payload;
        let s = s\<lparr>downlink_buffer := frame\<rparr>;
        let s = s\<lparr>latest_downlink_event_time := now\<rparr>;
        let s = write_port (downlink_buffer s) s;
        Some (s\<lparr>message_counter := message_counter s + 1\<rparr>)
      })"

definition transmit_control_char :: "byte list \<Rightarrow> real \<Rightarrow> port_state \<Rightarrow> port_state" where
  "transmit_control_char char now s =
     (let s = (if session_is_active s = False then session_begin SESSION_ACTIVE_MASTER s else s);
          s = s\<lparr>latest_downlink_event_time := now\<rparr>;
          s = s\<lparr>downlink_buffer := char\<rparr>
      in write_port (downlink_buffer s) s)"

definition send_ack :: "real \<Rightarrow> port_state \<Rightarrow> port_state" where
  "send_ack now s = transmit_control_char ACK now s"

definition send_nak :: "real \<Rightarrow> port_state \<Rightarrow> port_state" where
  "send_nak now s = transmit_control_char NAK now s"

definition send_enq :: "real \<Rightarrow> port_state \<Rightarrow> port_state" where
  "send_enq now s = transmit_control_char ENQ now s"

definition send_eot :: "real \<Rightarrow> port_state \<Rightarrow> port_state" where
  "send_eot now s = transmit_control_char EOT now s"

definition re_transmit :: "message_state \<Rightarrow> real \<Rightarrow> port_state \<Rightarrow> port_state" where
  "re_transmit message_state now s =
     (let resend_limit =
            (if message_state = MESSAGE_STATE_NACKED then RESEND_LIMIT_NAK else RESEND_LIMIT)
      in
      if downlink_retransmit_count s < resend_limit then
        (let s = s\<lparr>downlink_retransmit_count := downlink_retransmit_count s + 1\<rparr>;
             s = s\<lparr>latest_downlink_event_time := now\<rparr>
         in write_port (downlink_buffer s) s)
      else if downlink_retransmit_count s = resend_limit then
        (let s = session_finish s in
         if ''linefault'' \<notin> set (active_faults s) then
           (let s = s\<lparr>active_faults := active_faults s @ [''linefault'']\<rparr>
            in send_fault_detected ''linefault'' ''No reply within retransmit count limit'' s)
         else s)
      else s)"

definition session_diagnostics :: "real \<Rightarrow> port_state \<Rightarrow> bool \<times> port_state" where
  \<comment> \<open>the result is the returned flag with the state the call leaves\<close>
  "session_diagnostics now s =
     (if \<not> port s then (False, s\<lparr>diag_timer := False\<rparr>)
      else
        (let current_time = now in
         if session_is_active s then
           (if current_time - latest_downlink_event_time s \<ge> 4.5
            then (True, re_transmit MESSAGE_STATE_NO_REPLY now s) else (True, s))
         else
           (let s = s\<lparr>session_state := SESSION_IDLE\<rparr> in
            if current_time - latest_uplink_event_time s \<ge> 19.5
            then (True, send_enq now s) else (True, s))))"

definition check_control_char :: "byte list \<Rightarrow> real \<Rightarrow> port_state \<Rightarrow> bool \<times> port_state" where
  \<comment> \<open>\<^verbatim>\<open>char\<close> is \<^verbatim>\<open>None\<close> for an empty buffer, else the slice \<^verbatim>\<open>data[0:1]\<close>\<close>
  "check_control_char data now s =
     (let char = (if data = [] then None else Some (take 1 data)) in
      if char = Some ACK then (True, session_finish s)
      else if char = Some NAK then (True, re_transmit MESSAGE_STATE_NACKED now s)
      else if char = Some EOT then (True, session_finish s)
      else if char = Some ENQ then (True, session_finish (send_eot now s))
      else (False, s))"

text \<open>
  A handler that can raise returns a sum: \<open>Inl (e, s)\<close> when the exception \<open>e\<close>
  leaves the method, \<open>s\<close> being the state in which it leaves the object, and
  \<open>Inr\<close> with the result when the method returns.
\<close>

datatype py_error = IndexError | KeyError

type_synonym 'a raising = "(py_error \<times> port_state) + 'a"

definition VERBOSE_DEBUG :: bool where
  \<comment> \<open>the module constant of \<^verbatim>\<open>alp.py\<close>\<close>
  "VERBOSE_DEBUG = True"

definition log_discarded_msg :: "snap_msg \<Rightarrow> port_state \<Rightarrow> port_state raising" where
  \<comment> \<open>\<^verbatim>\<open>__log_discarded_msg\<close>: under \<^verbatim>\<open>VERBOSE_DEBUG\<close> the text to log is built by
      \<^verbatim>\<open>str.format\<close> from a literal that holds \<^verbatim>\<open>{prodex,hhl}\<close> with a backslash before
      each brace. A backslash does not escape a brace, so this is a replacement field
      whose name is \<^verbatim>\<open>prodex,hhl\<close> and a backslash; \<^verbatim>\<open>format\<close> is given positional
      arguments only and raises \<^verbatim>\<open>KeyError\<close> for the name, before anything is logged.\<close>
  "log_discarded_msg msg s = (if VERBOSE_DEBUG then Inl (KeyError, s) else Inr s)"

datatype route =
    Forward string  \<comment> \<open>go on to forward the message, with this \<^verbatim>\<open>content\<close>\<close>
  | Return  \<comment> \<open>a plain \<^verbatim>\<open>return\<close>\<close>
  | LogDiscarded  \<comment> \<open>\<^verbatim>\<open>self.__log_discarded_msg(msg)\<close>, then \<^verbatim>\<open>return\<close>\<close>

definition hhl_content :: "snap_msg \<Rightarrow> route" where
  \<comment> \<open>the \<^verbatim>\<open>if\<close> chain of \<^verbatim>\<open>on_message_hhl\<close>: the \<^verbatim>\<open>content\<close> it derives, or the way
      it leaves the method early\<close>
  "hhl_content msg =
     (let loop_id = snap_loop_id msg; message_type = snap_message_type msg;
          service_class = snap_service_class msg in
      if service_class = 1 then
        (if message_type = 1 then
           (if loop_id = 0 then Forward ''Keskuksen linjahalytys''
            else if loop_id \<ge> 1 \<and> loop_id \<le> 512 then Forward ''Silmukka auki (halytys)''
            else if loop_id \<ge> 521 \<and> loop_id \<le> 552 then Forward ''Poliisipainike''
            else if loop_id \<ge> 561 \<and> loop_id \<le> 592 then Forward ''Kayttolaitteen kansi auki''
            else if loop_id = 600 then Forward ''Keskus osavalvontatilaan''
            else if loop_id \<ge> 601 \<and> loop_id \<le> 632 then Forward ''Ryhma kytketty pois''
            else if loop_id = 680 then Forward ''Keskuksen kuittaustieto''
            else if loop_id = 681 then Forward ''Akkuhalytys''
            else if loop_id = 682 then Forward ''Keskuksen kansi auki''
            else if loop_id = 683 then Forward ''Vaara koodi syotetty''
            else if loop_id = 691 then Forward ''Vajaatoiminta (paalle)''
            else if loop_id \<ge> 701 \<and> loop_id \<le> 956 then Forward ''Kayttaja sisaan''
            else if loop_id \<ge> 961 \<and> loop_id \<le> 992 then Forward ''Ryhma ohitus paalle''
            else Forward ''non-specified'')
         else if message_type = 2 then
           (if loop_id \<ge> 1 \<and> loop_id \<le> 512 then Forward ''Silmukan kansihalytys''
            else Forward ''non-specified'')
         else if message_type = 7 then
           (if loop_id \<ge> 1 \<and> loop_id \<le> 512 then Forward ''Silmukan ohitus paalle''
            else Forward ''non-specified'')
         else if message_type = 8 then
           (if loop_id \<ge> 1 \<and> loop_id \<le> 512 then Forward ''Silmukan ohitus pois''
            else Forward ''non-specified'')
         else if message_type = 9 then
           (if loop_id = 0 then Forward ''Keskuksen linjahalytyksen lepotila''
            else if loop_id \<ge> 1 \<and> loop_id \<le> 512 then Forward ''Silmukka kiinni (lepo)''
            else if loop_id = 600 then Forward ''Keskus taysvalvontatilaan''
            else if loop_id \<ge> 601 \<and> loop_id \<le> 632 then Forward ''Ryhma kytketty paalle''
            else if loop_id = 691 then Forward ''Vajaatoiminta (pois)''
            else if loop_id \<ge> 701 \<and> loop_id \<le> 956 then Forward ''Kayttaja ulos''
            else if loop_id \<ge> 961 \<and> loop_id \<le> 992 then Forward ''Ryhma ohitus pois''
            else if loop_id = 2000 then Return
            else Forward ''non-specified'')
         else Forward ''non-specified'')
      else if service_class = 91 then LogDiscarded
      else if service_class = 92 then LogDiscarded
      else if service_class = 94 then LogDiscarded
      else Forward ''non-specified'')"

definition on_message_hhl :: "snap_msg \<Rightarrow> port_state \<Rightarrow> port_state raising" where
  "on_message_hhl msg s =
     (case hhl_content msg of
        Return \<Rightarrow> Inr s
      | LogDiscarded \<Rightarrow> log_discarded_msg msg s
      | Forward content \<Rightarrow>
          (let data = UplinkAlarm msg;
               data = data\<lparr>alarm_data := remove_cr (alarm_data data)\<rparr>
           in Inr (send_cloud_alarm data content s)))"

definition prodex_content :: "snap_msg \<Rightarrow> (string \<times> snap_msg) option" where
  \<comment> \<open>the \<^verbatim>\<open>content\<close> of \<^verbatim>\<open>on_message_prodex\<close> with the message as the method rewrites
      it; \<open>None\<close> in the last branch, where the message is discarded\<close>
  "prodex_content msg =
     (let in_1_9 = (snap_message_type msg = 1 \<or> snap_message_type msg = 9) in
      if snap_system_id msg = 680 \<and> snap_service_class msg = 10 \<and> in_1_9 then
        Some (''Palohalytys (ryhma)'', msg\<lparr>snap_loop_id := 1\<rparr>)
      else if snap_system_id msg = 681 \<and> snap_service_class msg = 11 \<and> in_1_9 then
        (let msg = msg\<lparr>snap_loop_id := 3\<rparr>;
             msg = (if snap_message_type msg = 1 then msg\<lparr>snap_message_type := 8\<rparr> else msg)
         in Some (''Ennakkohalytys (ryhma)'', msg))
      else if snap_system_id msg = 688 \<and> snap_service_class msg = 1 \<and> in_1_9 then
        (let msg = msg\<lparr>snap_loop_id := 0\<rparr>;
             msg = (if snap_message_type msg = 1 then msg\<lparr>snap_message_type := 3\<rparr> else msg)
         in Some (''Keskuksen linjahalytys'', msg))
      else if snap_system_id msg = 689 \<and> snap_service_class msg = 1 \<and> in_1_9 then
        Some (''Palohalytys'', msg\<lparr>snap_loop_id := 1\<rparr>)
      else None)"

definition on_message_prodex :: "snap_msg \<Rightarrow> port_state \<Rightarrow> port_state raising" where
  "on_message_prodex msg s =
     (case prodex_content msg of
        None \<Rightarrow> log_discarded_msg msg s
      | Some (content, msg) \<Rightarrow>
          (let data = UplinkAlarm msg;
               data = data\<lparr>alarm_data := content @ '': '' @ alarm_data data\<rparr>;
               data = data\<lparr>alarm_data := remove_cr (alarm_data data)\<rparr>
           in Inr (send_cloud_alarm data content s)))"

definition dispatch_message :: "snap_msg \<Rightarrow> port_state \<Rightarrow> port_state raising" where
  \<comment> \<open>the choice of the classifier by \<^verbatim>\<open>self.serial_snap_proto\<close>\<close>
  "dispatch_message msg s =
     (if serial_snap_proto s = ''hhl'' then on_message_hhl msg s
      else if serial_snap_proto s = ''prodex'' then on_message_prodex msg s
      else Inr s)"

definition on_frame ::
  "(byte list \<Rightarrow> snap_msg) \<Rightarrow> byte list \<Rightarrow> bool \<Rightarrow> real \<Rightarrow> port_state
     \<Rightarrow> (bool \<times> port_state) raising" where
  \<comment> \<open>the last branch of the loop body of \<^verbatim>\<open>on_receive\<close>, for a frame that is not empty;
      \<open>SNAPMsg_Parse\<close> stands for \<^verbatim>\<open>SNAPMsg.Parse\<close>, which is not in the source tree\<close>
  "on_frame SNAPMsg_Parse snap_frame valid_msg_parsed now s =
     (let s = (if \<not> session_is_active s then session_begin SESSION_ACTIVE_CLIENT s else s);
          msg = SNAPMsg_Parse snap_frame
      in
      if \<not> snap_empty msg then
        (case dispatch_message msg s of
           Inl e \<Rightarrow> Inl e
         | Inr s \<Rightarrow> Inr (True, send_ack now s))
      else Inr (valid_msg_parsed, send_ack now s))"

definition on_no_frame :: "nat \<Rightarrow> byte list \<Rightarrow> real \<Rightarrow> port_state \<Rightarrow> port_state" where
  \<comment> \<open>the branch \<^verbatim>\<open>elif not snap_frame\<close> of the loop body\<close>
  "on_no_frame consumed data now s =
     (if consumed = 0 \<and> length data \<ge> RX_BUFFER_MAX_LEN
      then session_finish (send_nak now (clear_rx_buffer s))
      else s)"

definition on_receive_body ::
  "(byte list \<Rightarrow> snap_msg) \<Rightarrow> real \<Rightarrow> byte list \<Rightarrow> bool \<Rightarrow> port_state
     \<Rightarrow> (nat \<times> byte list \<times> bool \<times> port_state) raising" where
  \<comment> \<open>one round of the \<^verbatim>\<open>while\<close> loop of \<^verbatim>\<open>on_receive\<close>: the new values of
      \<^verbatim>\<open>consumed\<close>, \<^verbatim>\<open>data\<close> and \<^verbatim>\<open>valid_msg_parsed\<close>, and the new state. An empty
      \<^verbatim>\<open>bytearray\<close> is false in Python, as \<^verbatim>\<open>None\<close> is.\<close>
  "on_receive_body SNAPMsg_Parse now data valid_msg_parsed s =
     (let (is_cchar, s) = check_control_char data now s in
      case (if is_cchar then Some (1, False, None) else Parse data) of
        None \<Rightarrow> Inl (IndexError, s)
      | Some (consumed, nack, snap_frame) \<Rightarrow>
         (let valid_msg_parsed = (if is_cchar then True else valid_msg_parsed);
              s = (if consumed \<noteq> 0 then consume_rx_buffer consumed s else s);
              data = (if consumed \<noteq> 0 then rx_buffer s else data)
          in
          if nack then Inr (consumed, data, valid_msg_parsed, send_nak now s)
          else (case snap_frame of
              None \<Rightarrow> Inr (consumed, data, valid_msg_parsed, on_no_frame consumed data now s)
            | Some frame \<Rightarrow>
                if frame = [] then
                  Inr (consumed, data, valid_msg_parsed, on_no_frame consumed data now s)
                else (case on_frame SNAPMsg_Parse frame valid_msg_parsed now s of
                    Inl e \<Rightarrow> Inl e
                  | Inr (valid_msg_parsed, s) \<Rightarrow> Inr (consumed, data, valid_msg_parsed, s)))))"

function on_receive_loop ::
  "(byte list \<Rightarrow> snap_msg) \<Rightarrow> real \<Rightarrow> nat \<Rightarrow> byte list \<Rightarrow> bool \<Rightarrow> port_state
     \<Rightarrow> (byte list \<times> bool \<times> port_state) raising" where
  \<comment> \<open>\<^verbatim>\<open>while consumed and len(data)\<close>: the values of \<^verbatim>\<open>data\<close> and
      \<^verbatim>\<open>valid_msg_parsed\<close> and the state when the loop ends\<close>
  "on_receive_loop SNAPMsg_Parse now consumed data valid_msg_parsed s =
     (if consumed \<noteq> 0 \<and> length data \<noteq> 0 then
        (case on_receive_body SNAPMsg_Parse now data valid_msg_parsed s of
           Inl e \<Rightarrow> Inl e
         | Inr (consumed', data', valid_msg_parsed', s') \<Rightarrow>
             on_receive_loop SNAPMsg_Parse now consumed' data' valid_msg_parsed' s')
      else Inr (data, valid_msg_parsed, s))"
  by pat_completeness auto
termination
proof (relation "measure (\<lambda>(SNAPMsg_Parse, now, consumed, data, valid_msg_parsed, s).
    if consumed = 0 \<or> data = [] then 0
    else if data = rx_buffer s then 2 * length data + 1 else 2 * length (rx_buffer s) + 2)")
  show "wf (measure (\<lambda>(SNAPMsg_Parse :: byte list \<Rightarrow> snap_msg, now :: real, consumed :: nat,
      data :: byte list, valid_msg_parsed :: bool, s :: port_state).
    if consumed = 0 \<or> data = [] then 0
    else if data = rx_buffer s then 2 * length data + 1 else 2 * length (rx_buffer s) + 2))"
    by simp
next
  fix SNAPMsg_Parse :: "byte list \<Rightarrow> snap_msg" and now :: real and consumed :: nat
    and data :: "byte list" and valid_msg_parsed :: bool and s :: port_state
    and x2 :: "nat \<times> byte list \<times> bool \<times> port_state" and consumed' :: nat
    and y :: "byte list \<times> bool \<times> port_state" and data' :: "byte list"
    and ya :: "bool \<times> port_state" and valid_msg_parsed' :: bool and s' :: port_state
  assume go: "consumed \<noteq> 0 \<and> length data \<noteq> 0"
    and body: "on_receive_body SNAPMsg_Parse now data valid_msg_parsed s = Inr x2"
    and x2: "(consumed', y) = x2" "(data', ya) = y" "(valid_msg_parsed', s') = ya"
  obtain is_cchar s0 where c0: "check_control_char data now s = (is_cchar, s0)"
    by force
  have "rx_buffer (snd (check_control_char data now s)) = rx_buffer s"
    by (simp add: check_control_char_def Let_def session_finish_def re_transmit_def write_port_def
        send_fault_detected_def send_eot_def transmit_control_char_def session_begin_def)
  then have r0: "rx_buffer s0 = rx_buffer s"
    by (simp add: c0)
  have nak: "rx_buffer (send_nak now t) = rx_buffer t" for t
    by (simp add: send_nak_def transmit_control_char_def Let_def write_port_def session_begin_def)
  have ack: "rx_buffer (send_ack now t) = rx_buffer t" for t
    by (simp add: send_ack_def transmit_control_char_def Let_def write_port_def session_begin_def)
  have nof: "c \<noteq> 0 \<Longrightarrow> rx_buffer (on_no_frame c d now t) = rx_buffer t" for c d t
    by (simp add: on_no_frame_def)
  have hhl: "on_message_hhl m t = Inr t' \<Longrightarrow> rx_buffer t' = rx_buffer t" for m t t'
    by (auto simp add: on_message_hhl_def log_discarded_msg_def send_cloud_alarm_def Let_def
          split: route.splits if_splits)
  have prodex: "on_message_prodex m t = Inr t' \<Longrightarrow> rx_buffer t' = rx_buffer t" for m t t'
    by (auto simp add: on_message_prodex_def log_discarded_msg_def send_cloud_alarm_def Let_def
          split: option.splits prod.splits if_splits)
  have dis: "dispatch_message m t = Inr t' \<Longrightarrow> rx_buffer t' = rx_buffer t" for m t t'
    using hhl prodex by (auto simp add: dispatch_message_def split: if_splits)
  have frm: "on_frame SNAPMsg_Parse f v now t = Inr (v', t') \<Longrightarrow> rx_buffer t' = rx_buffer t"
    for f v t v' t'
    by (auto simp add: on_frame_def Let_def ack session_begin_def
          split: if_splits sum.splits dest!: dis)
  have "consumed' \<noteq> 0 \<longrightarrow> data' = rx_buffer s' \<and> length (rx_buffer s') = length (rx_buffer s) - consumed'"
    using body x2[symmetric] r0
    by (auto simp: on_receive_body_def c0 Let_def consume_rx_buffer_def nak nof
          split: if_splits option.splits prod.splits sum.splits dest!: frm)
  then show "((SNAPMsg_Parse, now, consumed', data', valid_msg_parsed', s'),
              (SNAPMsg_Parse, now, consumed, data, valid_msg_parsed, s))
     \<in> measure (\<lambda>(SNAPMsg_Parse, now, consumed, data, valid_msg_parsed, s).
        if consumed = 0 \<or> data = [] then 0
        else if data = rx_buffer s then 2 * length data + 1 else 2 * length (rx_buffer s) + 2)"
    using go by (auto split: if_splits)
qed

definition on_receive_finish :: "real \<Rightarrow> byte list \<Rightarrow> bool \<Rightarrow> port_state \<Rightarrow> port_state" where
  \<comment> \<open>the statements of \<^verbatim>\<open>on_receive\<close> after the loop\<close>
  "on_receive_finish now data valid_msg_parsed s =
     (let s = (if length data = 0 then session_finish s else s) in
      if valid_msg_parsed then
        (let s = s\<lparr>latest_uplink_event_time := now\<rparr> in
         if ''linefault'' \<in> set (active_faults s) \<or> \<not> line_fault_over_msg_sent s then
           (let s = (if ''linefault'' \<in> set (active_faults s)
                     then s\<lparr>active_faults := remove1 ''linefault'' (active_faults s)\<rparr> else s);
                s = (if \<not> line_fault_over_msg_sent s
                     then s\<lparr>line_fault_over_msg_sent := True\<rparr> else s)
            in send_fault_over ''linefault over'' s)
         else s)
      else s)"

definition on_receive_from ::
  "(byte list \<Rightarrow> snap_msg) \<Rightarrow> real \<Rightarrow> nat \<Rightarrow> byte list \<Rightarrow> bool \<Rightarrow> port_state
     \<Rightarrow> port_state raising" where
  \<comment> \<open>\<^verbatim>\<open>on_receive\<close> from the head of its loop on, given the values of the local
      variables \<^verbatim>\<open>consumed\<close>, \<^verbatim>\<open>data\<close> and \<^verbatim>\<open>valid_msg_parsed\<close> there\<close>
  "on_receive_from SNAPMsg_Parse now consumed data valid_msg_parsed s =
     (case on_receive_loop SNAPMsg_Parse now consumed data valid_msg_parsed s of
        Inl e \<Rightarrow> Inl e
      | Inr (data, valid_msg_parsed, s) \<Rightarrow> Inr (on_receive_finish now data valid_msg_parsed s))"

definition on_receive ::
  "(byte list \<Rightarrow> snap_msg) \<Rightarrow> real \<Rightarrow> byte list \<Rightarrow> port_state \<Rightarrow> port_state raising" where
  "on_receive SNAPMsg_Parse now data s = on_receive_from SNAPMsg_Parse now 1 data False s"

section \<open>Runs of the handlers, for the statements\<close>

function Parse_repeat :: "byte list \<Rightarrow> byte list option" where
  \<comment> \<open>\<^verbatim>\<open>Parse\<close> applied again and again, the consumed bytes dropped after each call, until
      the buffer is empty or a call consumes nothing (every later call would then return
      the same): the bytes that are left\<close>
  "Parse_repeat b =
     (if b = [] then Some []
      else (case Parse b of
          None \<Rightarrow> None
        | Some (consumed, nack, frame) \<Rightarrow>
            if consumed = 0 then Some b else Parse_repeat (drop consumed b)))"
  by pat_completeness auto
termination
  by (relation "measure length") auto

fun ticks :: "real list \<Rightarrow> port_state \<Rightarrow> port_state" where
  \<comment> \<open>the timer calls \<^verbatim>\<open>session_diagnostics\<close> at each of the given times, in order\<close>
  "ticks [] s = s"
| "ticks (t # ts) s = ticks ts (snd (session_diagnostics t s))"

fun silent :: "real list \<Rightarrow> port_state \<Rightarrow> bool" where
  \<comment> \<open>every one of these ticks comes at least 4.5 s after the latest downlink event\<close>
  "silent [] s = True"
| "silent (t # ts) s =
     (t - latest_downlink_event_time s \<ge> 4.5 \<and> silent ts (snd (session_diagnostics t s)))"

definition sample_SNAPMsg_Parse :: "byte list \<Rightarrow> snap_msg" where
  \<comment> \<open>a decoder to run the examples with: the first byte of the payload is the service
      class of an alarm message, and the empty payload gives the degenerate message\<close>
  "sample_SNAPMsg_Parse frame = \<lparr>
     snap_more = False, snap_message_counter = 1,
     snap_service_class = (case frame of [] \<Rightarrow> 0 | b # _ \<Rightarrow> uint b),
     snap_message_type = 1, snap_system_id = 1, snap_terminal_id = 1, snap_loop_id = 0,
     snap_event_time = 0, snap_data = frame, snap_empty = (frame = []) \<rparr>"

definition discarded :: "string \<Rightarrow> snap_msg \<Rightarrow> bool" where
  \<comment> \<open>the classifier of the protocol hands the message to \<^verbatim>\<open>__log_discarded_msg\<close>\<close>
  "discarded proto msg =
     (proto = ''hhl'' \<and> hhl_content msg = LogDiscarded \<or>
      proto = ''prodex'' \<and> prodex_content msg = None)"

section \<open>Properties of the codec\<close>

lemma and_255: "(b::int) AND 0xff = b mod 256"
  using take_bit_eq_mask[of 8 b, symmetric] by (simp add: take_bit_eq_mod mask_eq_exp_minus_1)

lemma and_15: "(b::int) AND 0x0f = b mod 16"
  using  take_bit_eq_mask[of 4 b, symmetric] by (simp add: take_bit_eq_mod mask_eq_exp_minus_1)

lemma push_or: 
  assumes "0 \<le> l" "l < 16" shows "push_bit 4 (h::int) OR l = 16 * h + l"
proof -
  have l: "take_bit 4 l = l" using assms by (simp add: take_bit_int_eq_self_iff)
  have "push_bit 4 h + take_bit 4 l = push_bit 4 h OR take_bit 4 l"
    by (rule disjunctive_add) (auto simp: bit_simps)
  then show ?thesis by (simp add: l push_bit_eq_mult)
qed

lemma uint_woi: "0 \<le> x \<Longrightarrow> x < 256 \<Longrightarrow> uint (word_of_int x :: byte) = x"
  by (simp add: uint_word_of_int)

lemma xor_range: 
  assumes "0 \<le> (a::int)" "a < 256" "0 \<le> b" "b < 256" shows "0 \<le> a XOR b \<and> a XOR b < 256"
proof -
  have "take_bit 8 a = a" "take_bit 8 b = b" using assms by (simp_all add: take_bit_int_eq_self_iff)
  then have "take_bit 8 (a XOR b) = a XOR b" by simp
  then show ?thesis using take_bit_int_eq_self_iff[of 8 "a XOR b"] by simp
qed

lemma Decode_arith: "Decode b0 b1 = (if b0 < 0x30 \<or> 0x3f < b0 \<or> b1 < 0x30 \<or> 0x3f < b1 then None
      else Some (16 * (b0 - 0x30) + (b1 - 0x30)))"
  by (simp add: Decode_def push_or)

lemma Encode_arith: "Encode b = [word_of_int (b mod 256 div 16 + 0x30), word_of_int (b mod 16 + 0x30)]"
proof -
  have "b mod 256 mod 16 = b mod 16" by (simp add: mod_mod_cancel)
  then show ?thesis
  by (simp add: Encode_def Let_def and_255 and_15 drop_bit_eq_div)
qed

lemma uint_Encode: "map uint (Encode b) = [b mod 256 div 16 + 0x30, b mod 16 + 0x30]"
proof -
  have "0 \<le> b mod 256 div 16" "b mod 256 div 16 < 16" "0 \<le> b mod 16" "b mod 16 < 16"
    by (simp_all add: div_less_iff_less_mult pos_imp_zdiv_nonneg_iff) 
  then have "uint (word_of_int (b mod 256 div 16 + 0x30) :: byte) = b mod 256 div 16 + 0x30"
     "uint (word_of_int (b mod 16 + 0x30) :: byte) = b mod 16 + 0x30"
    by (intro uint_woi; linarith)+
  then show ?thesis 
    unfolding Encode_arith by simp
qed

lemma Decode_Encode: "Encode b = [h, l] \<Longrightarrow> Decode (uint h) (uint l) = Some (b mod 256)"
proof -
  assume a: "Encode b = [h, l]"
  have r: "0 \<le> b mod 256 div 16" "b mod 256 div 16 < 16" "0 \<le> b mod 16" "b mod 16 < 16"
    by (simp_all add: div_less_iff_less_mult pos_imp_zdiv_nonneg_iff) 
  from a have "map uint (Encode b) = [uint h, uint l]" by simp
  then have hl: "uint h = b mod 256 div 16 + 0x30" "uint l = b mod 16 + 0x30"
    by (simp_all add: uint_Encode)
  have "b mod 256 mod 16 = b mod 16" by (simp add: mod_mod_cancel)
  then have "16 * (b mod 256 div 16) + b mod 16 = b mod 256"
    using mult_div_mod_eq[of 16 "b mod 256"] by simp
  moreover have "\<not> (uint h < 0x30 \<or> 0x3f < uint h \<or> uint l < 0x30 \<or> 0x3f < uint l)" 
    unfolding hl using r by linarith
  ultimately show ?thesis unfolding Decode_arith by (simp add: hl)
qed

lemma getitem_Some [simp]: "i < length xs \<Longrightarrow> getitem xs i = Some (xs ! i)"
  by (simp add: getitem_def)

lemma setitem_Some [simp]: "i < length xs \<Longrightarrow> setitem xs i v = Some (xs[i := v])"
  by (simp add: setitem_def)

lemma length_Encode [simp]: "length (Encode b) = 2"
  by (simp add: Encode_def Let_def)

lemma length_nibbles [simp]: "length (nibbles p) = 2 * length p"
  by (induction p) (simp_all add: nibbles_def)

lemma nibbles_Nil [simp]: "nibbles [] = []"
  by (simp add: nibbles_def)

lemma nibbles_Cons: "nibbles (d # ds) = Encode (uint d) @ nibbles ds"
  by (simp add: nibbles_def)


lemma Encode_pair: "\<exists>h l. Encode b = [h, l] \<and> 0x30 \<le> uint h \<and> uint h \<le> 0x3f \<and> 0x30 \<le> uint l \<and> uint l \<le> 0x3f"
proof -
  have r: "0 \<le> b mod 256 div 16" "b mod 256 div 16 < 16" "0 \<le> b mod 16" "b mod 16 < 16"
    by (simp_all add: div_less_iff_less_mult pos_imp_zdiv_nonneg_iff)
  obtain h l where hl: "Encode b = [h, l]" by (simp add: Encode_def Let_def)
  then have "map uint (Encode b) = [uint h, uint l]" by simp
  then have "uint h = b mod 256 div 16 + 0x30" "uint l = b mod 16 + 0x30"
    by (simp_all add: uint_Encode)
  with r hl show ?thesis by auto
qed

lemma uint_mod_256 [simp]: "uint (d :: byte) mod 256 = uint d"
  using uint_bounded[of d] by simp

lemma sum_bytes_append: "sum_bytes (xs @ ys) = sum_bytes xs + sum_bytes ys"
  by (simp add: sum_bytes_def)

lemma xor_bytes_append: "xor_bytes k (xs @ ys) = xor_bytes (xor_bytes k xs) ys"
  by (simp add: xor_bytes_def)

lemma EncodeData_loop_eq:
  "i + 2 * length ds \<le> length buffer \<Longrightarrow>
   EncodeData_loop buffer i ds cs cp =
     Some (take i buffer @ nibbles ds @ drop (i + 2 * length ds) buffer,
           cs + sum_bytes (nibbles ds), xor_bytes cp (nibbles ds))"
proof (induction ds arbitrary: buffer i cs cp)
  case Nil
  then show ?case by (simp add: sum_bytes_def xor_bytes_def)
next
  case (Cons d ds)
  obtain h l where hl: "Encode (uint d) = [h, l]" using Encode_pair by blast
  let ?b = "setslice buffer i (i + 2) [h, l]"
  have len: "length ?b = length buffer" using Cons.prems by (simp add: setslice_def)
  have b: "?b = take i buffer @ [h, l] @ drop (i + 2) buffer" by (simp add: setslice_def)
  have i: "i + 1 < length buffer" using Cons.prems by simp
  have n0: "?b ! i = h" using i unfolding b by (simp add: nth_append)
  have n1: "?b ! (i + 1) = l" using i unfolding b by (simp add: nth_append)
  have g0: "getitem ?b i = Some h" using i n0 len unfolding getitem_def by simp
  have g1: "getitem ?b (i + 1) = Some l" using i n1 len unfolding getitem_def by simp
  have ih: "EncodeData_loop ?b (i + 2) ds cs' cp' =
     Some (take (i + 2) ?b @ nibbles ds @ drop (i + 2 + 2 * length ds) ?b,
           cs' + sum_bytes (nibbles ds), xor_bytes cp' (nibbles ds))" for cs' cp'
  proof (rule Cons.IH)
    show "i + 2 + 2 * length ds \<le> length ?b" unfolding len using Cons.prems by simp
  qed
  have t: "take (i + 2) ?b = take i buffer @ [h, l]" using i unfolding b by simp
  have d: "drop (i + 2 + 2 * length ds) ?b = drop (i + 2 + 2 * length ds) buffer"
    using i unfolding b by (simp add: add.commute)
  have "EncodeData_loop buffer i (d # ds) cs cp =
      EncodeData_loop ?b (i + 2) ds (cs + (uint h + uint l)) ((cp XOR uint h) XOR uint l)"
    unfolding EncodeData_loop.simps hl Let_def g0 g1 by simp
  also have "\<dots> = Some (take i buffer @ [h, l] @ nibbles ds @ drop (i + 2 + 2 * length ds) buffer,
       cs + (uint h + uint l) + sum_bytes (nibbles ds), xor_bytes ((cp XOR uint h) XOR uint l) (nibbles ds))"
    unfolding ih t d by simp
  finally show ?case
    by (simp add: nibbles_Cons hl sum_bytes_def xor_bytes_def)
qed

lemma drop_len_append: "length xs = k \<Longrightarrow> drop k (xs @ ys) = ys"
  by simp

lemma setslice_mid:
  "length xs = i \<Longrightarrow> j = i + length ys \<Longrightarrow> setslice (xs @ ys @ zs) i j ws = xs @ ws @ zs"
  by (simp add: setslice_def)

lemma Write_eq: "Write p = Some (frame_of p)"
proof -
  let ?n = "length p"
  let ?hd = "[SOH, PI1, PI2, STX]"
  let ?f0 = "replicate (4 + ?n * 2 + 5) (0 :: byte)"
  let ?f1 = "setslice ?f0 0 3 [0x01, 0x41, 0x32]"
  let ?f2 = "?hd @ replicate (?n * 2 + 5) 0"
  let ?cs = "sum_bytes (nibbles p) AND 0xff"
  let ?cp = "xor_bytes 0 (nibbles p)"
  let ?f3 = "?hd @ nibbles p @ replicate 5 0"
  let ?f4 = "?hd @ nibbles p @ [ETX, 0, 0, 0, 0]"
  have f0: "?f0 = [0, 0, 0, 0] @ replicate (?n * 2 + 5) 0"
    by (simp add: numeral_eq_Suc)
  have f1: "?f1 = [0x01, 0x41, 0x32, 0] @ replicate (?n * 2 + 5) 0"
    unfolding f0 setslice_def by simp
  have s1: "setitem ?f1 3 STX = Some ?f2"
    unfolding f1 by (simp add: setitem_def SOH_def PI1_def PI2_def)
  have "EncodeData_loop ?f2 4 p 0 0 =
     Some (take 4 ?f2 @ nibbles p @ drop (4 + 2 * ?n) ?f2, 0 + sum_bytes (nibbles p), ?cp)"
    by (rule EncodeData_loop_eq) simp
  moreover have "?f2 = (?hd @ replicate (2 * ?n) 0) @ replicate 5 0"
    by (simp add: replicate_add mult.commute)
  moreover have "drop (4 + 2 * ?n) ((?hd @ replicate (2 * ?n) 0) @ replicate 5 0) = replicate 5 0"
    by (rule drop_len_append) simp
  ultimately have "EncodeData_loop ?f2 4 p 0 0 =
     Some (take 4 ?f2 @ nibbles p @ replicate 5 0, 0 + sum_bytes (nibbles p), ?cp)"
    by (simp only:)
  moreover have "take 4 ?f2 = ?hd" by simp
  ultimately have l: "EncodeData_loop ?f2 4 p 0 0 = Some (?f3, sum_bytes (nibbles p), ?cp)"
    by (simp only: append_assoc) simp
  have e: "EncodeData ?f2 4 p = Some (?f3, ?cs, ?cp)"
    unfolding EncodeData_def Let_def l by simp
  have u0: "((?hd @ nibbles p) @ 0 # replicate 4 0)[length (?hd @ nibbles p) := ETX]
      = (?hd @ nibbles p) @ ETX # replicate 4 0"
    by (rule list_update_length)
  have len: "length (?hd @ nibbles p) = 4 + ?n * 2" by simp
  have r5: "replicate 5 (0::byte) = 0 # replicate 4 0" "replicate 4 (0::byte) = [0, 0, 0, 0]"
    by (simp_all add: numeral_eq_Suc)
  have u: "?f3[4 + ?n * 2 := ETX] = ?f4"
    using u0 unfolding len r5 by simp
  have s3: "setitem ?f3 (4 + ?n * 2 + 5 - 5) ETX = Some ?f4"
    unfolding setitem_def using u by simp
  obtain a b where ab: "Encode ?cs = [a, b]" using Encode_pair by blast
  obtain c d where cd: "Encode ?cp = [c, d]" using Encode_pair by blast
  let ?A = "?hd @ nibbles p @ [ETX]"
  have "setslice (?A @ [0, 0] @ [0, 0]) (4 + ?n * 2 + 5 - 4) (4 + ?n * 2 + 5 - 2) [a, b]
     = ?A @ [a, b] @ [0, 0]"
    by (rule setslice_mid) simp_all
  then have t5: "setslice ?f4 (4 + ?n * 2 + 5 - 4) (4 + ?n * 2 + 5 - 2) [a, b]
     = ?hd @ nibbles p @ [ETX, a, b, 0, 0]"
    by simp
  have "setslice ((?A @ [a, b]) @ [0, 0] @ []) (4 + ?n * 2 + 5 - 2) (4 + ?n * 2 + 5) [c, d]
     = (?A @ [a, b]) @ [c, d] @ []"
    by (rule setslice_mid) simp_all
  then have t6: "setslice (?hd @ nibbles p @ [ETX, a, b, 0, 0]) (4 + ?n * 2 + 5 - 2) (4 + ?n * 2 + 5) [c, d]
     = ?hd @ nibbles p @ [ETX, a, b, c, d]"
    by simp
  show ?thesis
    unfolding Write_def Let_def s1 using e s3 t5 t6
    by (simp add: frame_of_def ab cd)
qed

declare scan_loop.simps [simp del]

lemma preamble_at_total: "i + 2 < length data \<Longrightarrow> \<exists>m. preamble_at data i = Some m"
  by (auto simp add: preamble_at_def)

lemma preamble_at_True:
  "i + 2 < length data \<Longrightarrow>
   preamble_at data i = Some (data ! i = SOH \<and> data ! (i + 1) = PI1 \<and> data ! (i + 2) = PI2)"
  by (simp add: preamble_at_def)

lemma find_start_total:
  "i + k + 2 \<le> length data \<Longrightarrow>
   \<exists>s. find_start data i k = Some s \<and>
       (s = length data \<or> (i \<le> s \<and> s < i + k \<and> preamble_at data s = Some True))"
proof (induction k arbitrary: i)
  case 0
  then show ?case by simp
next
  case (Suc k)
  then have "i + 2 < length data" by simp
  then obtain m where m: "preamble_at data i = Some m" using preamble_at_total by blast
  show ?case
  proof (cases m)
    case True
    then show ?thesis using m by simp
  next
    case False
    from Suc.prems have "Suc i + k + 2 \<le> length data" by simp
    from Suc.IH[OF this] obtain s where
      "find_start data (Suc i) k = Some s"
      "s = length data \<or> (Suc i \<le> s \<and> s < Suc i + k \<and> preamble_at data s = Some True)"
      by blast
    then show ?thesis using m False by auto
  qed
qed

lemma find_start_first:
  "preamble_at data i = Some True \<Longrightarrow> find_start data i (Suc k) = Some i"
  by simp

lemma scan_loop_total:
  "stop < length data \<Longrightarrow> (stop - i + 1) div 2 + j \<le> length snap \<Longrightarrow>
   \<exists>r. scan_loop data i stop cs cp snap j = Some r \<and>
     (case r of
        Returned res \<Rightarrow> (\<exists>c. res = (c, True, None) \<and> i \<le> c \<and> c < stop)
      | Broke off _ _ _ \<Rightarrow> i \<le> off \<and> off < stop \<and> data ! off = ETX
      | Exhausted _ _ _ \<Rightarrow> True)"
proof (induction data i stop cs cp snap j rule: scan_loop.induct)
  case (1 data i stop chksum chkpar snap_frame j)
  show ?case
  proof (cases "i < stop")
    case False
    then show ?thesis by (simp add: scan_loop.simps)
  next
    case lt: True
    then have i: "i < length data" "i + 1 < length data" using "1.prems" by simp_all
    have j: "j < length snap_frame" using lt "1.prems"(2) by arith
    show ?thesis
    proof (cases "data ! i = ETX")
      case True
      then show ?thesis using lt i by (simp add: scan_loop.simps)
    next
      case ne: False
      show ?thesis
      proof (cases "Decode (uint (data ! i)) (uint (data ! (i + 1)))")
        case None
        then show ?thesis using lt i ne by (simp add: scan_loop.simps[of data i])
      next
        case (Some b)
        have ar: "(stop - (i + 2) + 1) div 2 + (j + 1) \<le> length (snap_frame[j := word_of_int b])"
          using lt "1.prems"(2) unfolding length_list_update by arith
        have g0: "getitem data i = Some (data ! i)" and g1: "getitem data (i + 1) = Some (data ! (i + 1))"
          and s: "setitem snap_frame j (word_of_int b) = Some (snap_frame[j := word_of_int b])"
          using i j by simp_all
        from "1.IH"[OF lt g0 ne g1 refl refl Some s "1.prems"(1) ar]
        obtain r where r: "scan_loop data (i + 2) stop (chksum + (uint (data ! i) + uint (data ! (i + 1))))
           ((chkpar XOR uint (data ! i)) XOR uint (data ! (i + 1))) (snap_frame[j := word_of_int b]) (j + 1) = Some r"
          "(case r of
        Returned res \<Rightarrow> (\<exists>c. res = (c, True, None) \<and> i + 2 \<le> c \<and> c < stop)
      | Broke off _ _ _ \<Rightarrow> i + 2 \<le> off \<and> off < stop \<and> data ! off = ETX
      | Exhausted _ _ _ \<Rightarrow> True)"
          by blast
        have "scan_loop data i stop chksum chkpar snap_frame j = Some r"
          using lt i j ne Some r(1) by (simp add: scan_loop.simps[of data i] Let_def)
        then show ?thesis using r(2) by (auto split: scan.splits)
      qed
    qed
  qed
qed

lemma Parse_tail_no_ETX:
  "offset < length data \<Longrightarrow> data ! offset \<noteq> ETX \<or> length data - 5 < offset \<Longrightarrow>
   Parse_tail data start offset cs cp snap = Some (start, False, None)"
  by (simp add: Parse_tail_def)

lemma Parse_tail_ETX:
  assumes "offset + 4 < length data" "data ! offset = ETX"
  shows "Parse_tail data start offset cs cp snap =
     (let fcs = Decode (uint (data ! (offset + 1))) (uint (data ! (offset + 2)));
          fcp = Decode (uint (data ! (offset + 3))) (uint (data ! (offset + 4))) in
      if fcs = None \<or> fcp = None then Some (offset, True, None)
      else if fcs \<noteq> Some cs \<or> fcp \<noteq> Some cp then Some (offset + 5, True, None)
      else Some (offset + 5, False, Some snap))"
proof -
  have "\<not> length data - 5 < offset" using assms(1) by arith
  then show ?thesis using assms by (simp add: Parse_tail_def Let_def)
qed

lemma Parse_tail_total:
  assumes "offset < length data" "start + 4 \<le> offset"
  shows "case Parse_tail data start offset cs cp snap of None \<Rightarrow> False
     | Some (c, n, f) \<Rightarrow> c \<le> length data \<and> (n \<longrightarrow> f = None) \<and>
         (c = 0 \<longrightarrow> start = 0 \<and> \<not> n \<and> f = None)"
proof (cases "data ! offset \<noteq> ETX \<or> length data - 5 < offset")
  case True
  from Parse_tail_no_ETX[OF assms(1) this] show ?thesis using assms by simp
next
  case False
  then have o: "offset + 4 < length data" "data ! offset = ETX" using assms by arith+
  show ?thesis
    unfolding Parse_tail_ETX[OF o] Let_def using o(1) assms(2) by simp
qed

lemma Parse_short: "length data < 9 \<Longrightarrow> Parse data = Some (0, False, None)"
  by (simp add: Parse_def)

lemma Parse_unfold:
  "\<not> length data < 9 \<Longrightarrow> find_start data 0 (length data - 9 + 1) = Some s \<Longrightarrow>
   Parse data =
     (if s > length data - 9 then Some (length data, False, None)
      else if data ! (s + 3) \<noteq> STX then Some (s + 4, True, None)
      else scan_loop data (s + 4) ((length data div 2) * 2 - 2) 0 0
             (replicate ((length data - s - 4) div 2) 0) 0 \<bind>
           (\<lambda>r. case r of
              Returned res \<Rightarrow> Some res
            | Broke offset' chksum chkpar snap_frame' \<Rightarrow>
                Parse_tail data s offset' chksum chkpar snap_frame'
            | Exhausted chksum chkpar snap_frame' \<Rightarrow>
                Parse_tail data s (s + 4) chksum chkpar snap_frame'))"
  by (simp add: Parse_def Let_def del: find_start.simps)

lemma Parse_total:
  "case Parse data of None \<Rightarrow> False
   | Some (c, n, f) \<Rightarrow> c \<le> length data \<and> (n \<longrightarrow> f = None) \<and>
       (c = 0 \<longrightarrow> \<not> n \<and> f = None \<and> (length data < 9 \<or> preamble_at data 0 = Some True))"
proof (cases "length data < 9")
  case True
  show ?thesis unfolding Parse_short[OF True] using True by simp
next
  case len: False
  let ?dlen = "length data"
  have "0 + (?dlen - 9 + 1) + 2 \<le> ?dlen" using len by simp
  from find_start_total[OF this] obtain s where
    s: "find_start data 0 (?dlen - 9 + 1) = Some s"
       "s = ?dlen \<or> (0 \<le> s \<and> s < 0 + (?dlen - 9 + 1) \<and> preamble_at data s = Some True)"
    by blast
  note P = Parse_unfold[OF len s(1)]
  show ?thesis
  proof (cases "s > ?dlen - 9")
    case True
    have "data \<noteq> []" using len by auto
    then show ?thesis unfolding P using True len by simp
  next
    case le: False
    then have pre: "preamble_at data s = Some True" and s3: "s + 3 < ?dlen" 
      using s(2) len by linarith+
    show ?thesis
    proof (cases "data ! (s + 3) = STX")
      case False
      show ?thesis unfolding P using False le s3 by simp
    next
      case stx: True
      let ?stop = "(?dlen div 2) * 2 - 2"
      let ?snap = "replicate ((?dlen - s - 4) div 2) (0::byte)"
      have st: "?stop < ?dlen" using len by arith
      have "(?stop - (s + 4) + 1) div 2 + 0 \<le> length ?snap"
        using len le unfolding length_replicate by arith
      from scan_loop_total[OF st this, of 0 0] obtain r where r: "scan_loop data (s + 4) ?stop 0 0 ?snap 0 = Some r"
        "(case r of
        Returned res \<Rightarrow> (\<exists>c. res = (c, True, None) \<and> s + 4 \<le> c \<and> c < ?stop)
      | Broke off _ _ _ \<Rightarrow> s + 4 \<le> off \<and> off < ?stop \<and> data ! off = ETX
      | Exhausted _ _ _ \<Rightarrow> True)"
        by blast
      have P': "Parse data = (case r of
              Returned res \<Rightarrow> Some res
            | Broke offset' chksum chkpar snap_frame' \<Rightarrow>
                Parse_tail data s offset' chksum chkpar snap_frame'
            | Exhausted chksum chkpar snap_frame' \<Rightarrow>
                Parse_tail data s (s + 4) chksum chkpar snap_frame')"
        unfolding P r(1) using le stx by simp
      show ?thesis
      proof (cases r)
        case (Returned res)
        then obtain c where "res = (c, True, None)" "c < ?stop" "s + 4 \<le> c" using r(2) by auto
        then show ?thesis unfolding P' Returned using st by simp
      next
        case (Broke off x y z)
        then have "off < ?dlen" "s + 4 \<le> off" using r(2) st by auto
        from Parse_tail_total[OF this, of x y z] show ?thesis unfolding P' Broke using pre by (auto split: option.splits)
      next
        case (Exhausted x y z)
        have "s + 4 < ?dlen" "s + 4 \<le> s + 4" using s3 le len by auto
        from Parse_tail_total[OF this, of x y z] show ?thesis unfolding P' Exhausted using pre by (auto split: option.splits)
      qed
    qed
  qed
qed

lemma scan_loop_step:
  assumes "i < stop" "i + 1 < length data" "data ! i \<noteq> ETX"
    "Decode (uint (data ! i)) (uint (data ! (i + 1))) = Some b" "j < length snap"
  shows "scan_loop data i stop cs cp snap j =
     scan_loop data (i + 2) stop (cs + (uint (data ! i) + uint (data ! (i + 1))))
       ((cp XOR uint (data ! i)) XOR uint (data ! (i + 1))) (snap[j := word_of_int b]) (j + 1)"
  using assms by (simp add: scan_loop.simps[of data i] Let_def)


lemma scan_loop_ETX:
  assumes "i < stop" "i < length data" "data ! i = ETX"
  shows "scan_loop data i stop cs cp snap j = Some (Broke i (cs AND 0xff) cp (take j snap))"
  using assms by (simp add: scan_loop.simps[of data i])

lemma scan_loop_end:
  "\<not> i < stop \<Longrightarrow> scan_loop data i stop cs cp snap j = Some (Exhausted cs cp snap)"
  by (simp add: scan_loop.simps[of data i])

lemma nibble_not_ETX: "0x30 \<le> uint (h :: byte) \<Longrightarrow> h \<noteq> ETX"
  by (auto simp: ETX_def)

lemma scan_loop_nibbles:
  assumes "data = xs @ nibbles q @ ys" "length xs = i" "i + 2 * length q \<le> stop"
    "j + length q \<le> length snap"
  shows "\<exists>snap'. length snap' = length snap \<and> take (j + length q) snap' = take j snap @ q \<and>
     scan_loop data i stop cs cp snap j =
     scan_loop data (i + 2 * length q) stop (cs + sum_bytes (nibbles q))
        (xor_bytes cp (nibbles q)) snap' (j + length q)"
  using assms
proof (induction q arbitrary: xs i cs cp snap j)
  case Nil
  show ?case by (rule exI[of _ snap]) (simp add: sum_bytes_def xor_bytes_def)
next
  case (Cons d q)
  obtain h l where hl: "Encode (uint d) = [h, l]" "0x30 \<le> uint h" using Encode_pair by blast
  have data: "data = (xs @ [h, l]) @ nibbles q @ ys" using Cons.prems(1) by (simp add: nibbles_Cons hl)
  have n0: "data ! i = h" and n1: "data ! (i + 1) = l" and len: "i + 1 < length data"
    using Cons.prems(2) unfolding data by (simp_all add: nth_append)
  have dec: "Decode (uint (data ! i)) (uint (data ! (i + 1))) = Some (uint d)"
    unfolding n0 n1 using Decode_Encode[OF hl(1)] by simp
  have st: "scan_loop data i stop cs cp snap j =
     scan_loop data (i + 2) stop (cs + (uint h + uint l)) ((cp XOR uint h) XOR uint l) (snap[j := d]) (j + 1)"
    using scan_loop_step[OF _ len _ dec, of stop j snap cs cp] Cons.prems(3,4) nibble_not_ETX[OF hl(2)]
    unfolding n0 n1 by simp
  have "\<exists>snap'. length snap' = length (snap[j := d]) \<and>
      take (j + 1 + length q) snap' = take (j + 1) (snap[j := d]) @ q \<and>
     scan_loop data (i + 2) stop (cs + (uint h + uint l)) ((cp XOR uint h) XOR uint l) (snap[j := d]) (j + 1) =
     scan_loop data (i + 2 + 2 * length q) stop (cs + (uint h + uint l) + sum_bytes (nibbles q))
        (xor_bytes ((cp XOR uint h) XOR uint l) (nibbles q)) snap' (j + 1 + length q)"
    using Cons.prems(2,3,4) by (intro Cons.IH[OF data]) simp_all
  then obtain snap' where s: "length snap' = length snap"
      "take (j + 1 + length q) snap' = take (j + 1) (snap[j := d]) @ q"
      "scan_loop data (i + 2) stop (cs + (uint h + uint l)) ((cp XOR uint h) XOR uint l) (snap[j := d]) (j + 1) =
     scan_loop data (i + 2 + 2 * length q) stop (cs + (uint h + uint l) + sum_bytes (nibbles q))
        (xor_bytes ((cp XOR uint h) XOR uint l) (nibbles q)) snap' (j + 1 + length q)"
    by auto
  have t: "take (j + 1) (snap[j := d]) = take j snap @ [d]"
    using Cons.prems(4) by (simp add: take_Suc_conv_app_nth)
  have "take (j + length (d # q)) snap' = take j snap @ d # q" using s(2) t by simp
  moreover have "scan_loop data i stop cs cp snap j =
     scan_loop data (i + 2 * length (d # q)) stop (cs + sum_bytes (nibbles (d # q)))
        (xor_bytes cp (nibbles (d # q))) snap' (j + length (d # q))"
    unfolding st s(3) by (simp add: nibbles_Cons hl sum_bytes_def xor_bytes_def add.assoc)
  ultimately show ?case using s(1) by blast
qed

lemma Parse_header:
  assumes "data = [SOH, PI1, PI2, STX] @ body" "5 \<le> length body"
  shows "Parse data =
      scan_loop data 4 ((length data div 2) * 2 - 2) 0 0
             (replicate ((length data - 4) div 2) 0) 0 \<bind>
           (\<lambda>r. case r of
              Returned res \<Rightarrow> Some res
            | Broke offset' chksum chkpar snap_frame' \<Rightarrow>
                Parse_tail data 0 offset' chksum chkpar snap_frame'
            | Exhausted chksum chkpar snap_frame' \<Rightarrow>
                Parse_tail data 0 4 chksum chkpar snap_frame')"
proof -
  have len: "\<not> length data < 9" using assms by simp
  have "preamble_at data 0 = Some True" unfolding assms(1) by (simp add: preamble_at_def)
  moreover have "length data - 9 + 1 = Suc (length data - 9)" by simp
  ultimately have fs: "find_start data 0 (length data - 9 + 1) = Some 0"
    by (simp only: find_start_first)
  have "data ! (0 + 3) = STX" unfolding assms(1) by simp
  then show ?thesis unfolding Parse_unfold[OF len fs] by simp
qed

lemma xor_bytes_range: "0 \<le> k \<Longrightarrow> k < 256 \<Longrightarrow> 0 \<le> xor_bytes k xs \<and> xor_bytes k xs < 256"
proof (induction xs arbitrary: k)
  case Nil
  then show ?case by (simp add: xor_bytes_def)
next
  case (Cons x xs)
  have "0 \<le> uint x" "uint x < 256" using uint_bounded[of x] by simp_all
  from xor_range[OF Cons.prems this] have "0 \<le> xor_bytes (k XOR uint x) xs \<and> xor_bytes (k XOR uint x) xs < 256"
    by (intro Cons.IH) simp_all
  then show ?case by (simp add: xor_bytes_def)
qed

lemma nth_len_plus: "length xs = k \<Longrightarrow> (xs @ ys) ! (k + m) = ys ! m"
  by (simp add: nth_append)

lemma Parse_framed:
  assumes "data = [SOH, PI1, PI2, STX] @ nibbles p @ [ETX, c1, c2, c3, c4] @ rest"
  shows "Parse data =
     (let fcs = Decode (uint c1) (uint c2); fcp = Decode (uint c3) (uint c4) in
      if fcs = None \<or> fcp = None then Some (4 + 2 * length p, True, None)
      else if fcs \<noteq> Some (sum_bytes (nibbles p) AND 0xff) \<or> fcp \<noteq> Some (xor_bytes 0 (nibbles p))
        then Some (4 + 2 * length p + 5, True, None)
      else Some (4 + 2 * length p + 5, False, Some p))"
proof -
  let ?n = "length p"
  let ?stop = "(length data div 2) * 2 - 2"
  let ?snap = "replicate ((length data - 4) div 2) (0::byte)"
  have dlen: "length data = 2 * ?n + 9 + length rest" unfolding assms by simp
  have d2: "data = [SOH, PI1, PI2, STX] @ (nibbles p @ [ETX, c1, c2, c3, c4] @ rest)"
    unfolding assms by simp
  have "5 \<le> length (nibbles p @ [ETX, c1, c2, c3, c4] @ rest)" by simp
  note P = Parse_header[OF d2 this]
  have stop: "4 + 2 * ?n + 2 \<le> ?stop" unfolding dlen by arith
  have sl: "0 + ?n \<le> length ?snap" unfolding dlen length_replicate by arith
  have d3: "data = [SOH, PI1, PI2, STX] @ nibbles p @ ([ETX, c1, c2, c3, c4] @ rest)"
    unfolding assms by simp
  from scan_loop_nibbles[OF d3 _ _ sl, of 4 ?stop 0 0] stop
  obtain snap' where s: "take (0 + ?n) snap' = take 0 ?snap @ p"
     "scan_loop data 4 ?stop 0 0 ?snap 0 =
      scan_loop data (4 + 2 * ?n) ?stop (0 + sum_bytes (nibbles p)) (xor_bytes 0 (nibbles p)) snap' (0 + ?n)"
    by auto
  have d4: "data = ([SOH, PI1, PI2, STX] @ nibbles p) @ [ETX, c1, c2, c3, c4] @ rest"
    unfolding assms by simp
  have la: "length ([SOH, PI1, PI2, STX] @ nibbles p) = 4 + 2 * ?n" by simp
  have n: "data ! (4 + 2 * ?n + m) = ([ETX, c1, c2, c3, c4] @ rest) ! m" for m
    unfolding d4 by (rule nth_len_plus[OF la])
  have nth: "data ! (4 + 2 * ?n) = ETX" "data ! (4 + 2 * ?n + 1) = c1" "data ! (4 + 2 * ?n + 2) = c2"
       "data ! (4 + 2 * ?n + 3) = c3" "data ! (4 + 2 * ?n + 4) = c4"
    using n[of 0] n[of 1] n[of 2] n[of 3] n[of 4] by simp_all
  have br: "scan_loop data 4 ?stop 0 0 ?snap 0 =
     Some (Broke (4 + 2 * ?n) (sum_bytes (nibbles p) AND 0xff) (xor_bytes 0 (nibbles p)) p)"
    unfolding s(2) using scan_loop_ETX[where i="4 + 2 * ?n" and stop="?stop" and data=data and cs="0 + sum_bytes (nibbles p)"
        and cp="xor_bytes 0 (nibbles p)" and j="0 + ?n" and snap=snap']
      stop nth(1) dlen s(1) by simp
  have "4 + 2 * ?n + 4 < length data" unfolding dlen by simp
  note T = Parse_tail_ETX[OF this nth(1), unfolded nth]
  show ?thesis
    unfolding P br by (simp add: T)
qed

lemma length_frame_of [simp]: "length (frame_of p) = 4 + 2 * length p + 5"
  by (simp add: frame_of_def)

lemma Decode_Encode_byte:
  "0 \<le> v \<Longrightarrow> v < 256 \<Longrightarrow> Encode v = [a, b] \<Longrightarrow> Decode (uint a) (uint b) = Some v"
  using Decode_Encode[of v a b] by simp

lemma csum_range: "0 \<le> (s::int) AND 0xff \<and> s AND 0xff < 256"
  by (simp add: and_255)

lemma Parse_frame_of: "Parse (frame_of p) = Some (length (frame_of p), False, Some p)"
proof -
  let ?cs = "sum_bytes (nibbles p) AND 0xff"
  let ?cp = "xor_bytes 0 (nibbles p)"
  obtain a b where ab: "Encode ?cs = [a, b]" using Encode_pair by blast
  obtain c d where cd: "Encode ?cp = [c, d]" using Encode_pair by blast
  have f: "frame_of p = [SOH, PI1, PI2, STX] @ nibbles p @ [ETX, a, b, c, d] @ []"
    by (simp add: frame_of_def ab cd)
  have d1: "Decode (uint a) (uint b) = Some ?cs"
    using csum_range[of "sum_bytes (nibbles p)"] ab by (intro Decode_Encode_byte) simp_all
  have d2: "Decode (uint c) (uint d) = Some ?cp"
    using xor_bytes_range[of 0 "nibbles p"] cd by (intro Decode_Encode_byte) simp_all
  show ?thesis
    unfolding Parse_framed[OF f] Let_def d1 d2 by simp
qed

text \<open>
  Claim C1. For every payload \<open>p\<close> of at most 500 bytes, \<open>Write p\<close> returns a frame
  of \<open>4 + 2 * length p + 5\<close> bytes, and \<open>Parse\<close> of that frame returns the whole
  length as consumed, no NAK, and the payload \<open>p\<close> itself. (\<open>Parse_frame_of\<close> shows
  that the bound on the length is not needed.)
\<close>

theorem Parse_Write_roundtrip:
  "length p \<le> 500 \<Longrightarrow>
   \<exists>frame. Write p = Some frame \<and> length frame = 4 + length p * 2 + 5 \<and>
      Parse frame = Some (length frame, False, Some p)"
  by (simp add: Write_eq Parse_frame_of)

theorem Parse_Write_roundtrip_witness:
  "length [1 :: byte] \<le> 500 \<and>
   (\<exists>frame. Write [1] = Some frame \<and> length frame = 4 + length [1 :: byte] * 2 + 5 \<and>
      Parse frame = Some (length frame, False, Some [1]))"
  using Parse_Write_roundtrip[of "[1]"] by simp

subsection \<open>Consumption\<close>

declare Parse_repeat.simps [simp del] on_receive_loop.simps [simp del]

lemma Parse_repeat_suffix:
  "case Parse_repeat b of None \<Rightarrow> False
   | Some r \<Rightarrow> suffix r b \<and> (r = [] \<or> Parse r = Some (0, False, None))"
proof (induction b rule: Parse_repeat.induct)
  case (1 b)
  show ?case
  proof (cases "b = []")
    case True
    then show ?thesis by (simp add: Parse_repeat.simps[of "[]"])
  next
    case ne: False
    from Parse_total[of b] obtain c n f where P: "Parse b = Some (c, n, f)" "c \<le> length b"
       "c = 0 \<longrightarrow> \<not> n \<and> f = None"
      by (auto split: option.splits)
    show ?thesis
    proof (cases "c = 0")
      case True
      then show ?thesis using ne P by (simp add: Parse_repeat.simps[of b])
    next
      case False
      from "1.IH"[OF ne P(1) refl refl False]
      have "case Parse_repeat (drop c b) of None \<Rightarrow> False
        | Some r \<Rightarrow> suffix r (drop c b) \<and> (r = [] \<or> Parse r = Some (0, False, None))" .
      moreover have "Parse_repeat b = Parse_repeat (drop c b)"
        using ne P(1) False by (simp add: Parse_repeat.simps[of b])
      ultimately show ?thesis
        by (auto split: option.splits intro: suffix_order.trans[OF _ suffix_drop])
    qed
  qed
qed

text \<open>
  Claim C8, as amended. For every buffer \<open>b\<close>, \<open>Parse\<close> returns a result (it does
  not raise) whose consumed count is at most \<open>length b\<close>. A call consumes nothing only
  with no NAK and no frame, and only on a buffer that is shorter than 9 bytes or starts
  with the preamble. Applying \<open>Parse\<close> repeatedly, dropping the consumed bytes each
  time, always comes to an end, and what is left is a suffix of the buffer that is empty
  or on which \<open>Parse\<close> consumes nothing: such a rest stays until more bytes arrive.
\<close>

theorem Parse_consumed_bounds:
  "(\<exists>consumed nack frame. Parse b = Some (consumed, nack, frame) \<and> consumed \<le> length b \<and>
      (consumed = 0 \<longrightarrow> \<not> nack \<and> frame = None \<and> (length b < 9 \<or> preamble_at b 0 = Some True))) \<and>
   (\<exists>r. Parse_repeat b = Some r \<and> suffix r b \<and> (r = [] \<or> Parse r = Some (0, False, None)))"
proof
  show "\<exists>consumed nack frame. Parse b = Some (consumed, nack, frame) \<and> consumed \<le> length b \<and>
      (consumed = 0 \<longrightarrow> \<not> nack \<and> frame = None \<and> (length b < 9 \<or> preamble_at b 0 = Some True))"
    using Parse_total[of b] by (cases "Parse b") auto
  show "\<exists>r. Parse_repeat b = Some r \<and> suffix r b \<and> (r = [] \<or> Parse r = Some (0, False, None))"
    using Parse_repeat_suffix[of b] by (cases "Parse_repeat b") auto
qed

theorem Parse_consumed_bounds_witness:
  "Parse [0x61] = Some (0, False, None) \<and> 0 \<le> length [0x61 :: byte] \<and>
   length [0x61 :: byte] < 9 \<and>
   (\<exists>r. Parse_repeat [0x61] = Some r \<and> suffix r [0x61] \<and> Parse r = Some (0, False, None))"
proof -
  have "Parse [0x61] = Some (0, False, None)" by (simp add: Parse_short)
  moreover have "Parse_repeat [0x61] = Some [0x61]"
    by (simp add: Parse_repeat.simps[of "[0x61]"] Parse_short)
  ultimately show ?thesis using Parse_consumed_bounds[of "[0x61]"] by simp
qed

text \<open>
  The claim as stated fails: on the one-byte stream \<open>0x61\<close> the repeated application
  stops with that byte still in the buffer, and no later call consumes it.
\<close>

theorem Parse_repeat_stalls: "Parse_repeat [0x61] = Some [0x61]"
  by (simp add: Parse_repeat.simps[of "[0x61]"] Parse_short)

text \<open>
  Claim C9 as stated fails: the frame of the empty payload has 9 bytes, and \<open>Parse\<close>
  returns a complete frame from these 9 bytes.
\<close>

theorem minimal_frame_has_9_bytes:
  "Write [] = Some [0x01, 0x41, 0x32, 0x02, 0x03, 0x30, 0x30, 0x30, 0x30] \<and>
   Parse [0x01, 0x41, 0x32, 0x02, 0x03, 0x30, 0x30, 0x30, 0x30] = Some (9, False, Some [])"
  by code_simp

text \<open>
  Claim C9, as amended. The frame that \<open>Write\<close> returns has \<open>9 + 2 * length p\<close>
  bytes, so at least 9; the frame of the empty payload has exactly 9; and \<open>Parse\<close>
  returns no frame (and consumes nothing) from a buffer shorter than 9 bytes.
\<close>

theorem minimum_frame_length:
  "(\<exists>frame. Write p = Some frame \<and> length frame = 9 + 2 * length p) \<and>
   (\<exists>frame. Write [] = Some frame \<and> length frame = 9) \<and>
   (length data < 9 \<longrightarrow> Parse data = Some (0, False, None))"
  by (simp add: Write_eq Parse_short)

theorem minimum_frame_length_witness:
  "(\<exists>frame. Write [7] = Some frame \<and> length frame = 9 + 2 * length [7 :: byte]) \<and>
   (\<exists>frame. Write [] = Some frame \<and> length frame = 9) \<and>
   length [0x61 :: byte] < 9 \<and> Parse [0x61] = Some (0, False, None)"
  using minimum_frame_length[of "[7]" "[0x61]"] by simp

subsection \<open>Corrupted frames\<close>


lemma bit_cases: "j < 8 \<Longrightarrow> j \<in> {0, 1, 2, 3, 4, 5, 6, 7 :: nat}"
  by auto

















section \<open>Properties of the session layer\<close>

subsection \<open>Retransmission\<close>

lemma tick_retransmit:
  assumes "port s" "session_is_active s" "now - latest_downlink_event_time s \<ge> 4.5"
    "downlink_retransmit_count s < 10"
  shows "session_diagnostics now s =
     (True, s\<lparr>downlink_retransmit_count := downlink_retransmit_count s + 1,
               latest_downlink_event_time := now,
               port_writes := port_writes s @ [downlink_buffer s]\<rparr>)"
  using assms
  by (simp add: session_diagnostics_def re_transmit_def RESEND_LIMIT_def write_port_def Let_def)

lemma tick_finish:
  assumes "port s" "session_is_active s" "now - latest_downlink_event_time s \<ge> 4.5"
    "downlink_retransmit_count s = 10" "''linefault'' \<notin> set (active_faults s)"
  shows "session_diagnostics now s =
     (True, s\<lparr>downlink_retransmit_count := 0, downlink_buffer := [],
               session_state := SESSION_FINISHED,
               active_faults := active_faults s @ [''linefault''],
               notifications := notifications s @
                 [FaultDetected ''linefault'' ''No reply within retransmit count limit'']\<rparr>)"
  using assms
  by (simp add: session_diagnostics_def re_transmit_def RESEND_LIMIT_def session_finish_def
      send_fault_detected_def Let_def)

lemma ticks_retransmit:
  assumes "port s" "session_is_active s" "silent ts s"
    "downlink_retransmit_count s + int (length ts) \<le> 10"
  shows "ticks ts s =
     s\<lparr>downlink_retransmit_count := downlink_retransmit_count s + int (length ts),
       latest_downlink_event_time := last (latest_downlink_event_time s # ts),
       port_writes := port_writes s @ replicate (length ts) (downlink_buffer s)\<rparr>"
  using assms
proof (induction ts arbitrary: s)
  case Nil
  then show ?case by simp
next
  case (Cons t ts)
  let ?s = "s\<lparr>downlink_retransmit_count := downlink_retransmit_count s + 1,
               latest_downlink_event_time := t,
               port_writes := port_writes s @ [downlink_buffer s]\<rparr>"
  have t: "session_diagnostics t s = (True, ?s)"
    using Cons.prems by (intro tick_retransmit) simp_all
  have "ticks ts ?s =
     ?s\<lparr>downlink_retransmit_count := downlink_retransmit_count ?s + int (length ts),
       latest_downlink_event_time := last (latest_downlink_event_time ?s # ts),
       port_writes := port_writes ?s @ replicate (length ts) (downlink_buffer ?s)\<rparr>"
    using Cons.prems by (intro Cons.IH) (simp_all add: t session_is_active_def)
  then show ?case by (simp add: t replicate_app_Cons_same)
qed

lemma silent_append: "silent (ts @ us) s \<longleftrightarrow> silent ts s \<and> silent us (ticks ts s)"
  by (induction ts arbitrary: s) simp_all

lemma ticks_append: "ticks (ts @ us) s = ticks us (ticks ts s)"
  by (induction ts arbitrary: s) simp_all

text \<open>
  Claim C2 as stated fails at its last step. A message is transmitted at time 0 from the
  initial state and no byte is ever received; after the ten ticks at 5, 10, ..., 50 s
  the retransmit count is 10, but the session is still ACTIVE_MASTER, there is no
  linefault and no notification.
\<close>

theorem ten_ticks_do_not_finish:
  "transmit [] 0 (init ''hhl'' 0 True) =
     Some \<lparr>port = True, diag_timer = True, rx_buffer = [],
           port_writes = [[0x01, 0x41, 0x32, 0x02, 0x03, 0x30, 0x30, 0x30, 0x30]],
           notifications = [], serial_snap_proto = ''hhl'', message_counter = 1,
           session_state = SESSION_ACTIVE_MASTER,
           downlink_buffer = [0x01, 0x41, 0x32, 0x02, 0x03, 0x30, 0x30, 0x30, 0x30],
           downlink_retransmit_count = 0, latest_downlink_event_time = 0,
           latest_uplink_event_time = 0, active_faults = [],
           line_fault_over_msg_sent = False\<rparr> \<and>
   session_state (ticks [5, 10, 15, 20, 25, 30, 35, 40, 45, 50]
        \<lparr>port = True, diag_timer = True, rx_buffer = [],
           port_writes = [[0x01, 0x41, 0x32, 0x02, 0x03, 0x30, 0x30, 0x30, 0x30]],
           notifications = [], serial_snap_proto = ''hhl'', message_counter = 1,
           session_state = SESSION_ACTIVE_MASTER,
           downlink_buffer = [0x01, 0x41, 0x32, 0x02, 0x03, 0x30, 0x30, 0x30, 0x30],
           downlink_retransmit_count = 0, latest_downlink_event_time = 0,
           latest_uplink_event_time = 0, active_faults = [],
           line_fault_over_msg_sent = False\<rparr>) = SESSION_ACTIVE_MASTER \<and>
   active_faults (ticks [5, 10, 15, 20, 25, 30, 35, 40, 45, 50]
        \<lparr>port = True, diag_timer = True, rx_buffer = [],
           port_writes = [[0x01, 0x41, 0x32, 0x02, 0x03, 0x30, 0x30, 0x30, 0x30]],
           notifications = [], serial_snap_proto = ''hhl'', message_counter = 1,
           session_state = SESSION_ACTIVE_MASTER,
           downlink_buffer = [0x01, 0x41, 0x32, 0x02, 0x03, 0x30, 0x30, 0x30, 0x30],
           downlink_retransmit_count = 0, latest_downlink_event_time = 0,
           latest_uplink_event_time = 0, active_faults = [],
           line_fault_over_msg_sent = False\<rparr>) = [] \<and>
   notifications (ticks [5, 10, 15, 20, 25, 30, 35, 40, 45, 50]
        \<lparr>port = True, diag_timer = True, rx_buffer = [],
           port_writes = [[0x01, 0x41, 0x32, 0x02, 0x03, 0x30, 0x30, 0x30, 0x30]],
           notifications = [], serial_snap_proto = ''hhl'', message_counter = 1,
           session_state = SESSION_ACTIVE_MASTER,
           downlink_buffer = [0x01, 0x41, 0x32, 0x02, 0x03, 0x30, 0x30, 0x30, 0x30],
           downlink_retransmit_count = 0, latest_downlink_event_time = 0,
           latest_uplink_event_time = 0, active_faults = [],
           line_fault_over_msg_sent = False\<rparr>) = []"
proof -
  have w: "Write [] = Some [0x01, 0x41, 0x32, 0x02, 0x03, 0x30, 0x30, 0x30, 0x30]"
    by code_simp
  let ?s = "\<lparr>port = True, diag_timer = True, rx_buffer = [],
           port_writes = [[0x01, 0x41, 0x32, 0x02, 0x03, 0x30, 0x30, 0x30, 0x30 :: byte]],
           notifications = [], serial_snap_proto = ''hhl'', message_counter = 1,
           session_state = SESSION_ACTIVE_MASTER,
           downlink_buffer = [0x01, 0x41, 0x32, 0x02, 0x03, 0x30, 0x30, 0x30, 0x30],
           downlink_retransmit_count = 0, latest_downlink_event_time = 0,
           latest_uplink_event_time = 0, active_faults = [],
           line_fault_over_msg_sent = False\<rparr>"
  have t: "transmit [] 0 (init ''hhl'' 0 True) = Some ?s"
    by (simp add: transmit_def init_def session_is_active_def session_begin_def w write_port_def)
  have "ticks [5, 10, 15, 20, 25, 30, 35, 40, 45, 50] ?s =
     ?s\<lparr>downlink_retransmit_count := downlink_retransmit_count ?s + int (length [5, 10, 15, 20, 25, 30, 35, 40, 45, 50 :: real]),
       latest_downlink_event_time := last (latest_downlink_event_time ?s # [5, 10, 15, 20, 25, 30, 35, 40, 45, 50]),
       port_writes := port_writes ?s @ replicate (length [5, 10, 15, 20, 25, 30, 35, 40, 45, 50 :: real]) (downlink_buffer ?s)\<rparr>"
    by (rule ticks_retransmit)
       (simp_all add: session_is_active_def session_diagnostics_def re_transmit_def
          RESEND_LIMIT_def write_port_def)
  then show ?thesis using t by simp
qed

text \<open>
  Claim C2, as amended. Start from a state with the port open, an active session,
  retransmit count 0 and no linefault, and let eleven diagnostic ticks follow, each at
  least 4.5 s after the latest downlink event, with nothing received. Each of the first
  ten ticks rewrites the downlink slot once and increments the retransmit count by one;
  after them the session is still in its state and no fault has been raised. The
  eleventh tick writes nothing, puts the session in state FINISHED, adds linefault to
  the active faults and emits the one fault-detected notification.
\<close>

theorem retransmit_bound:
  assumes "port s" "session_is_active s" "downlink_retransmit_count s = 0"
    "''linefault'' \<notin> set (active_faults s)" "length ts = 11" "silent ts s"
  shows "(k \<le> 10 \<longrightarrow>
       downlink_retransmit_count (ticks (take k ts) s) = int k \<and>
       port_writes (ticks (take k ts) s) = port_writes s @ replicate k (downlink_buffer s) \<and>
       session_state (ticks (take k ts) s) = session_state s \<and>
       active_faults (ticks (take k ts) s) = active_faults s \<and>
       notifications (ticks (take k ts) s) = notifications s) \<and>
     session_state (ticks ts s) = SESSION_FINISHED \<and>
     ''linefault'' \<in> set (active_faults (ticks ts s)) \<and>
     notifications (ticks ts s) =
       notifications s @ [FaultDetected ''linefault'' ''No reply within retransmit count limit''] \<and>
     port_writes (ticks ts s) = port_writes s @ replicate 10 (downlink_buffer s)"
proof -
  have first: "ticks (take k ts) s =
     s\<lparr>downlink_retransmit_count := int k,
       latest_downlink_event_time := last (latest_downlink_event_time s # take k ts),
       port_writes := port_writes s @ replicate k (downlink_buffer s)\<rparr>" if "k \<le> 10" for k
  proof -
    have "silent (take k ts @ drop k ts) s" using assms(6) by simp
    then have "silent (take k ts) s" unfolding silent_append by simp
    from ticks_retransmit[OF assms(1,2) this] that assms(3,5) show ?thesis by simp
  qed
  let ?s10 = "ticks (take 10 ts) s"
  have "take (Suc 10) ts = take 10 ts @ [ts ! 10]"
    using assms(5) by (intro take_Suc_conv_app_nth) simp
  moreover have "take (Suc 10) ts = ts" using assms(5) by simp
  ultimately have ts: "ts = take 10 ts @ [ts ! 10]" by simp
  then have "silent (take 10 ts @ [ts ! 10]) s" using assms(6) by simp
  then have late: "ts ! 10 - latest_downlink_event_time ?s10 \<ge> 4.5"
    unfolding silent_append by simp
  have "ticks ts s = ticks [ts ! 10] ?s10" by (subst ts) (simp add: ticks_append)
  also have "\<dots> = snd (session_diagnostics (ts ! 10) ?s10)" by simp
  also have "session_diagnostics (ts ! 10) ?s10 = (True, ?s10\<lparr>downlink_retransmit_count := 0, downlink_buffer := [],
               session_state := SESSION_FINISHED,
               active_faults := active_faults ?s10 @ [''linefault''],
               notifications := notifications ?s10 @
                 [FaultDetected ''linefault'' ''No reply within retransmit count limit'']\<rparr>)"
    using late assms(1,2,4) by (intro tick_finish) (simp_all add: first session_is_active_def)
  finally have last: "ticks ts s = ?s10\<lparr>downlink_retransmit_count := 0, downlink_buffer := [],
               session_state := SESSION_FINISHED,
               active_faults := active_faults ?s10 @ [''linefault''],
               notifications := notifications ?s10 @
                 [FaultDetected ''linefault'' ''No reply within retransmit count limit'']\<rparr>"
    by simp
  show ?thesis using first[of k] by (simp add: last first[of 10])
qed

theorem retransmit_bound_witness:
  "\<exists>s. transmit [] 0 (init ''hhl'' 0 True) = Some s \<and>
     port s \<and> session_is_active s \<and> downlink_retransmit_count s = 0 \<and>
     ''linefault'' \<notin> set (active_faults s) \<and>
     silent [5, 10, 15, 20, 25, 30, 35, 40, 45, 50, 55] s \<and>
     downlink_retransmit_count (ticks (take 10 [5, 10, 15, 20, 25, 30, 35, 40, 45, 50, 55]) s) = 10 \<and>
     session_state (ticks (take 10 [5, 10, 15, 20, 25, 30, 35, 40, 45, 50, 55]) s) = SESSION_ACTIVE_MASTER \<and>
     session_state (ticks [5, 10, 15, 20, 25, 30, 35, 40, 45, 50, 55] s) = SESSION_FINISHED \<and>
     ''linefault'' \<in> set (active_faults (ticks [5, 10, 15, 20, 25, 30, 35, 40, 45, 50, 55] s)) \<and>
     notifications (ticks [5, 10, 15, 20, 25, 30, 35, 40, 45, 50, 55] s) =
       [FaultDetected ''linefault'' ''No reply within retransmit count limit'']"
proof -
  have w: "Write [] = Some [0x01, 0x41, 0x32, 0x02, 0x03, 0x30, 0x30, 0x30, 0x30]"
    by code_simp
  let ?s = "\<lparr>port = True, diag_timer = True, rx_buffer = [],
           port_writes = [[0x01, 0x41, 0x32, 0x02, 0x03, 0x30, 0x30, 0x30, 0x30 :: byte]],
           notifications = [], serial_snap_proto = ''hhl'', message_counter = 1,
           session_state = SESSION_ACTIVE_MASTER,
           downlink_buffer = [0x01, 0x41, 0x32, 0x02, 0x03, 0x30, 0x30, 0x30, 0x30],
           downlink_retransmit_count = 0, latest_downlink_event_time = 0,
           latest_uplink_event_time = 0, active_faults = [],
           line_fault_over_msg_sent = False\<rparr>"
  let ?ts = "[5, 10, 15, 20, 25, 30, 35, 40, 45, 50, 55 :: real]"
  have t: "transmit [] 0 (init ''hhl'' 0 True) = Some ?s"
    by (simp add: transmit_def init_def session_is_active_def session_begin_def w write_port_def)
  have h: "port ?s" "session_is_active ?s" "downlink_retransmit_count ?s = 0"
    "''linefault'' \<notin> set (active_faults ?s)" "length ?ts = 11"
    by (simp_all add: session_is_active_def)
  have sil: "silent ?ts ?s"
    by (simp add: session_is_active_def session_diagnostics_def re_transmit_def
          RESEND_LIMIT_def write_port_def)
  from retransmit_bound[OF h sil, of 10] t h show ?thesis
    using sil by simp
qed

text \<open>
  Claim C7 as stated fails. An ENQ is sent at time 0 from the initial state and nothing
  is received; ten ticks bring the retransmit count to the limit 10, and the call of
  \<open>re_transmit\<close> at 55 s finishes the session and raises linefault, which resets the
  count to 0. The next call of \<open>re_transmit\<close>, at 60 s, is not a no-op: it sets the
  count to 1 and hands the (empty) downlink slot to the port once more.
\<close>

theorem retransmit_after_limit_counts_again:
  "downlink_retransmit_count
     (ticks [5, 10, 15, 20, 25, 30, 35, 40, 45, 50] (send_enq 0 (init ''hhl'' 0 True))) = RESEND_LIMIT \<and>
   session_state (re_transmit MESSAGE_STATE_NO_REPLY 55
     (ticks [5, 10, 15, 20, 25, 30, 35, 40, 45, 50] (send_enq 0 (init ''hhl'' 0 True))))
     = SESSION_FINISHED \<and>
   active_faults (re_transmit MESSAGE_STATE_NO_REPLY 55
     (ticks [5, 10, 15, 20, 25, 30, 35, 40, 45, 50] (send_enq 0 (init ''hhl'' 0 True))))
     = [''linefault''] \<and>
   downlink_retransmit_count (re_transmit MESSAGE_STATE_NO_REPLY 55
     (ticks [5, 10, 15, 20, 25, 30, 35, 40, 45, 50] (send_enq 0 (init ''hhl'' 0 True)))) = 0 \<and>
   downlink_retransmit_count (re_transmit MESSAGE_STATE_NO_REPLY 60 (re_transmit MESSAGE_STATE_NO_REPLY 55
     (ticks [5, 10, 15, 20, 25, 30, 35, 40, 45, 50] (send_enq 0 (init ''hhl'' 0 True))))) = 1 \<and>
   port_writes (re_transmit MESSAGE_STATE_NO_REPLY 60 (re_transmit MESSAGE_STATE_NO_REPLY 55
     (ticks [5, 10, 15, 20, 25, 30, 35, 40, 45, 50] (send_enq 0 (init ''hhl'' 0 True))))) =
   port_writes (re_transmit MESSAGE_STATE_NO_REPLY 55
     (ticks [5, 10, 15, 20, 25, 30, 35, 40, 45, 50] (send_enq 0 (init ''hhl'' 0 True)))) @ [[]]"
proof -
  let ?s = "send_enq 0 (init ''hhl'' 0 True)"
  let ?ts = "[5, 10, 15, 20, 25, 30, 35, 40, 45, 50 :: real]"
  have s: "?s = \<lparr>port = True, diag_timer = True, rx_buffer = [],
           port_writes = [ENQ], notifications = [], serial_snap_proto = ''hhl'', message_counter = 0,
           session_state = SESSION_ACTIVE_MASTER, downlink_buffer = ENQ,
           downlink_retransmit_count = 0, latest_downlink_event_time = 0,
           latest_uplink_event_time = 0, active_faults = [],
           line_fault_over_msg_sent = False\<rparr>"
    by (simp add: send_enq_def transmit_control_char_def init_def session_is_active_def
          session_begin_def write_port_def)
  have "ticks ?ts ?s =
     ?s\<lparr>downlink_retransmit_count := downlink_retransmit_count ?s + int (length ?ts),
       latest_downlink_event_time := last (latest_downlink_event_time ?s # ?ts),
       port_writes := port_writes ?s @ replicate (length ?ts) (downlink_buffer ?s)\<rparr>"
    unfolding s
    by (rule ticks_retransmit)
       (simp_all add: session_is_active_def session_diagnostics_def re_transmit_def
          RESEND_LIMIT_def write_port_def)
  then show ?thesis
    by (simp add: s re_transmit_def RESEND_LIMIT_def session_finish_def send_fault_detected_def
          write_port_def)
qed

text \<open>
  Claim C7, as amended. The call of \<open>re_transmit\<close> that finds the retransmit count
  equal to the limit of its cause leaves the session FINISHED, the count 0, the downlink
  slot empty and linefault among the active faults. A later call of \<open>re_transmit\<close> in
  that state, for either cause, changes the count to 1 and the time of the latest
  downlink event, and hands the empty slot to the port (no byte goes out); it leaves
  the session state, the downlink slot and the active faults as they are.
\<close>

theorem retransmit_after_limit:
  assumes "downlink_retransmit_count s =
     (if cause = MESSAGE_STATE_NACKED then RESEND_LIMIT_NAK else RESEND_LIMIT)"
  shows "session_state (re_transmit cause now s) = SESSION_FINISHED \<and>
     downlink_retransmit_count (re_transmit cause now s) = 0 \<and>
     downlink_buffer (re_transmit cause now s) = [] \<and>
     ''linefault'' \<in> set (active_faults (re_transmit cause now s)) \<and>
     re_transmit cause' now' (re_transmit cause now s) =
       (re_transmit cause now s)\<lparr>downlink_retransmit_count := 1,
          latest_downlink_event_time := now',
          port_writes := port_writes (re_transmit cause now s) @ [[]]\<rparr>"
  using assms
  by (simp add: re_transmit_def RESEND_LIMIT_def RESEND_LIMIT_NAK_def session_finish_def
        send_fault_detected_def write_port_def Let_def)

theorem retransmit_after_limit_witness:
  "downlink_retransmit_count ((init ''hhl'' 0 True)\<lparr>downlink_retransmit_count := 5\<rparr>) =
     RESEND_LIMIT_NAK \<and>
   session_state (re_transmit MESSAGE_STATE_NACKED 7
      ((init ''hhl'' 0 True)\<lparr>downlink_retransmit_count := 5\<rparr>)) = SESSION_FINISHED \<and>
   downlink_retransmit_count (re_transmit MESSAGE_STATE_NACKED 8 (re_transmit MESSAGE_STATE_NACKED 7
      ((init ''hhl'' 0 True)\<lparr>downlink_retransmit_count := 5\<rparr>))) = 1"
proof -
  have h: "downlink_retransmit_count ((init ''hhl'' 0 True)\<lparr>downlink_retransmit_count := 5\<rparr>) =
     (if MESSAGE_STATE_NACKED = MESSAGE_STATE_NACKED then RESEND_LIMIT_NAK else RESEND_LIMIT)"
    by (simp add: RESEND_LIMIT_NAK_def)
  from retransmit_after_limit[OF h, of 7 MESSAGE_STATE_NACKED 8] h show ?thesis
    by simp
qed

subsection \<open>Reception\<close>

lemmas session_defs = session_finish_def session_begin_def session_is_active_def
  transmit_control_char_def send_ack_def send_nak_def send_enq_def send_eot_def write_port_def
  consume_rx_buffer_def clear_rx_buffer_def send_fault_detected_def send_fault_over_def
  send_cloud_alarm_def

lemma check_control_char_Cons:
  "check_control_char (c # rest) now s =
     (if c = 0x06 then (True, session_finish s)
      else if c = 0x15 then (True, re_transmit MESSAGE_STATE_NACKED now s)
      else if c = 0x04 then (True, session_finish s)
      else if c = 0x05 then (True, session_finish (send_eot now s))
      else (False, s))"
  by (simp add: check_control_char_def ACK_def NAK_def EOT_def ENQ_def)

lemma rx_buffer_re_transmit [simp]: "rx_buffer (re_transmit m now s) = rx_buffer s"
  by (simp add: re_transmit_def session_defs Let_def)

lemma on_receive_body_control:
  assumes "c \<in> {0x06, 0x15, 0x04, 0x05}"
  shows "on_receive_body SNAPMsg_Parse now (c # rest) valid s =
      Inr (1, drop 1 (rx_buffer s), True,
        consume_rx_buffer 1
          (if c = 0x06 then session_finish s
           else if c = 0x15 then re_transmit MESSAGE_STATE_NACKED now s
           else if c = 0x04 then session_finish s
           else session_finish (send_eot now s)))"
  using assms
  by (auto simp add: on_receive_body_def check_control_char_Cons on_no_frame_def Let_def
        consume_rx_buffer_def session_finish_def send_eot_def transmit_control_char_def
        write_port_def session_begin_def)

lemma re_transmit_NACKED:
  "re_transmit MESSAGE_STATE_NACKED now s =
     (if downlink_retransmit_count s < 5 then
        s\<lparr>port_writes := port_writes s @ [downlink_buffer s],
          downlink_retransmit_count := downlink_retransmit_count s + 1,
          latest_downlink_event_time := now\<rparr>
      else if downlink_retransmit_count s = 5 then
        s\<lparr>notifications :=
            (if ''linefault'' \<in> set (active_faults s) then notifications s
             else notifications s @
               [FaultDetected ''linefault'' ''No reply within retransmit count limit'']),
          session_state := SESSION_FINISHED, downlink_buffer := [],
          downlink_retransmit_count := 0,
          active_faults :=
            (if ''linefault'' \<in> set (active_faults s) then active_faults s
             else active_faults s @ [''linefault''])\<rparr>
      else s)"
  by (simp add: re_transmit_def RESEND_LIMIT_NAK_def session_defs Let_def)

lemma on_receive_loop_exit:
  "consumed = 0 \<or> data = [] \<Longrightarrow>
   on_receive_loop SNAPMsg_Parse now consumed data valid s = Inr (data, valid, s)"
  by (auto simp add: on_receive_loop.simps[of _ _ consumed data])

lemma on_receive_loop_step:
  "consumed \<noteq> 0 \<Longrightarrow> data \<noteq> [] \<Longrightarrow>
   on_receive_body SNAPMsg_Parse now data valid s = Inr (consumed', data', valid', s') \<Longrightarrow>
   on_receive_loop SNAPMsg_Parse now consumed data valid s =
     on_receive_loop SNAPMsg_Parse now consumed' data' valid' s'"
  by (simp add: on_receive_loop.simps[of _ _ consumed data])

lemma on_receive_loop_raise:
  "consumed \<noteq> 0 \<Longrightarrow> data \<noteq> [] \<Longrightarrow>
   on_receive_body SNAPMsg_Parse now data valid s = Inl e \<Longrightarrow>
   on_receive_loop SNAPMsg_Parse now consumed data valid s = Inl e"
  by (simp add: on_receive_loop.simps[of _ _ consumed data])

text \<open>
  Claim C4 as stated fails for NAK. An ENQ is sent at time 0 from the initial state and
  five NAK bytes have been answered with five resends, so the retransmit count is 5
  and the downlink slot holds the ENQ. The round of the receive loop on a sixth NAK
  does not re-transmit the slot: the port has its six writes as before, the session
  is FINISHED and linefault is raised.
\<close>

theorem sixth_nak_is_not_resent:
  "downlink_buffer
     (re_transmit MESSAGE_STATE_NACKED 5 (re_transmit MESSAGE_STATE_NACKED 4
       (re_transmit MESSAGE_STATE_NACKED 3 (re_transmit MESSAGE_STATE_NACKED 2
         (re_transmit MESSAGE_STATE_NACKED 1 (send_enq 0 (init ''hhl'' 0 True))))))) = [0x05] \<and>
   on_receive_body sample_SNAPMsg_Parse 6 [0x15] False
     ((re_transmit MESSAGE_STATE_NACKED 5 (re_transmit MESSAGE_STATE_NACKED 4
       (re_transmit MESSAGE_STATE_NACKED 3 (re_transmit MESSAGE_STATE_NACKED 2
         (re_transmit MESSAGE_STATE_NACKED 1 (send_enq 0 (init ''hhl'' 0 True)))))))
        \<lparr>rx_buffer := [0x15]\<rparr>)
     = Inr (1, [], True,
        \<lparr>port = True, diag_timer = True, rx_buffer = [],
         port_writes = [[0x05], [0x05], [0x05], [0x05], [0x05], [0x05]],
         notifications = [FaultDetected ''linefault'' ''No reply within retransmit count limit''],
         serial_snap_proto = ''hhl'', message_counter = 0,
         session_state = SESSION_FINISHED, downlink_buffer = [],
         downlink_retransmit_count = 0, latest_downlink_event_time = 5,
         latest_uplink_event_time = 0, active_faults = [''linefault''],
         line_fault_over_msg_sent = False\<rparr>)"
proof -
  have s0: "send_enq 0 (init ''hhl'' 0 True) =
        \<lparr>port = True, diag_timer = True, rx_buffer = [],
         port_writes = [[0x05]], notifications = [],
         serial_snap_proto = ''hhl'', message_counter = 0,
         session_state = SESSION_ACTIVE_MASTER, downlink_buffer = [0x05],
         downlink_retransmit_count = 0, latest_downlink_event_time = 0,
         latest_uplink_event_time = 0, active_faults = [],
         line_fault_over_msg_sent = False\<rparr>"
    by (simp add: init_def session_defs ENQ_def)
  have c: "(0x15 :: byte) \<in> {0x06, 0x15, 0x04, 0x05}" by simp
  show ?thesis
    unfolding on_receive_body_control[OF c] s0
    by (simp add: re_transmit_NACKED consume_rx_buffer_def)
qed

text \<open>
  Claim C4, as amended. When the first byte of the buffer is ACK, NAK, EOT or ENQ, one
  round of the receive loop handles it as a control event whatever follows it in the
  buffer (the result does not depend on \<open>Parse\<close>), marks a valid message, and
  consumes one byte. ACK and EOT finish the session: the downlink slot is cleared, the
  retransmit count reset to 0 and the state set to FINISHED. ENQ writes EOT to the port
  and then finishes the session. NAK calls \<open>re_transmit\<close> for a NACKED resend: while
  the retransmit count is below 5 the downlink slot is written to the port again, the
  count goes up by one and the time of the latest downlink event is set; at count 5
  nothing is written, the session is finished and linefault is raised (with its
  notification, unless it is raised already); above 5 nothing happens. From IDLE, with
  the single byte \<open>0x05\<close> in the receive buffer, \<open>on_receive\<close> ends FINISHED with
  EOT written to the port.
\<close>

theorem control_byte_handling:
  assumes "c \<in> {0x06, 0x15, 0x04, 0x05}"
  shows "on_receive_body SNAPMsg_Parse now (c # rest) valid s =
      Inr (1, drop 1 (rx_buffer s), True,
        (if c = 0x06 \<or> c = 0x04 then
           s\<lparr>rx_buffer := drop 1 (rx_buffer s), session_state := SESSION_FINISHED,
             downlink_buffer := [], downlink_retransmit_count := 0\<rparr>
         else if c = 0x05 then
           s\<lparr>rx_buffer := drop 1 (rx_buffer s), port_writes := port_writes s @ [[0x04]],
             session_state := SESSION_FINISHED, downlink_buffer := [],
             downlink_retransmit_count := 0, latest_downlink_event_time := now\<rparr>
         else if downlink_retransmit_count s < 5 then
           s\<lparr>rx_buffer := drop 1 (rx_buffer s),
             port_writes := port_writes s @ [downlink_buffer s],
             downlink_retransmit_count := downlink_retransmit_count s + 1,
             latest_downlink_event_time := now\<rparr>
         else if downlink_retransmit_count s = 5 then
           s\<lparr>rx_buffer := drop 1 (rx_buffer s),
             notifications :=
               (if ''linefault'' \<in> set (active_faults s) then notifications s
                else notifications s @
                  [FaultDetected ''linefault'' ''No reply within retransmit count limit'']),
             session_state := SESSION_FINISHED, downlink_buffer := [],
             downlink_retransmit_count := 0,
             active_faults :=
               (if ''linefault'' \<in> set (active_faults s) then active_faults s
                else active_faults s @ [''linefault''])\<rparr>
         else s\<lparr>rx_buffer := drop 1 (rx_buffer s)\<rparr>)) \<and>
     (session_state s = SESSION_IDLE \<and> rx_buffer s = [0x05] \<longrightarrow>
        (\<exists>s'. on_receive SNAPMsg_Parse now [0x05] s = Inr s' \<and>
           session_state s' = SESSION_FINISHED \<and> port_writes s' = port_writes s @ [[0x04]] \<and>
           rx_buffer s' = []))"
proof -
  have "\<exists>s'. on_receive SNAPMsg_Parse now [0x05] s = Inr s' \<and>
           session_state s' = SESSION_FINISHED \<and> port_writes s' = port_writes s @ [[0x04]] \<and>
           rx_buffer s' = []"
    if idle: "session_state s = SESSION_IDLE" and rx: "rx_buffer s = [0x05]"
  proof -
    let ?s1 = "consume_rx_buffer 1 (session_finish (send_eot now s))"
    have b: "on_receive_body SNAPMsg_Parse now [0x05] False s = Inr (1, [], True, ?s1)"
      using on_receive_body_control[of "0x05" SNAPMsg_Parse now "[]" False s] rx by simp
    have "on_receive_loop SNAPMsg_Parse now 1 [0x05] False s =
        on_receive_loop SNAPMsg_Parse now 1 [] True ?s1"
      by (rule on_receive_loop_step[OF _ _ b]) simp_all
    then have l: "on_receive_loop SNAPMsg_Parse now 1 [0x05] False s = Inr ([], True, ?s1)"
      by (simp add: on_receive_loop_exit)
    show ?thesis
      unfolding on_receive_def on_receive_from_def l using rx
      by (simp add: on_receive_finish_def session_defs EOT_def Let_def)
  qed
  moreover have "on_receive_body SNAPMsg_Parse now (c # rest) valid s =
      Inr (1, drop 1 (rx_buffer s), True,
        (if c = 0x06 \<or> c = 0x04 then
           s\<lparr>rx_buffer := drop 1 (rx_buffer s), session_state := SESSION_FINISHED,
             downlink_buffer := [], downlink_retransmit_count := 0\<rparr>
         else if c = 0x05 then
           s\<lparr>rx_buffer := drop 1 (rx_buffer s), port_writes := port_writes s @ [[0x04]],
             session_state := SESSION_FINISHED, downlink_buffer := [],
             downlink_retransmit_count := 0, latest_downlink_event_time := now\<rparr>
         else if downlink_retransmit_count s < 5 then
           s\<lparr>rx_buffer := drop 1 (rx_buffer s),
             port_writes := port_writes s @ [downlink_buffer s],
             downlink_retransmit_count := downlink_retransmit_count s + 1,
             latest_downlink_event_time := now\<rparr>
         else if downlink_retransmit_count s = 5 then
           s\<lparr>rx_buffer := drop 1 (rx_buffer s),
             notifications :=
               (if ''linefault'' \<in> set (active_faults s) then notifications s
                else notifications s @
                  [FaultDetected ''linefault'' ''No reply within retransmit count limit'']),
             session_state := SESSION_FINISHED, downlink_buffer := [],
             downlink_retransmit_count := 0,
             active_faults :=
               (if ''linefault'' \<in> set (active_faults s) then active_faults s
                else active_faults s @ [''linefault''])\<rparr>
         else s\<lparr>rx_buffer := drop 1 (rx_buffer s)\<rparr>))"
    unfolding on_receive_body_control[OF assms] using assms
    by (auto simp add: re_transmit_NACKED session_defs EOT_def Let_def)
  ultimately show ?thesis by blast
qed

theorem control_byte_handling_witness:
  "(0x05 :: byte) \<in> {0x06, 0x15, 0x04, 0x05} \<and>
   session_state ((init ''hhl'' 0 True)\<lparr>rx_buffer := [0x05]\<rparr>) = SESSION_IDLE \<and>
   rx_buffer ((init ''hhl'' 0 True)\<lparr>rx_buffer := [0x05]\<rparr>) = [0x05] \<and>
   on_receive_body sample_SNAPMsg_Parse 1 [0x05] False ((init ''hhl'' 0 True)\<lparr>rx_buffer := [0x05]\<rparr>)
     = Inr (1, [], True,
         (init ''hhl'' 0 True)\<lparr>port_writes := [[0x04]], session_state := SESSION_FINISHED,
            latest_downlink_event_time := 1\<rparr>) \<and>
   (\<exists>s'. on_receive sample_SNAPMsg_Parse 1 [0x05] ((init ''hhl'' 0 True)\<lparr>rx_buffer := [0x05]\<rparr>) = Inr s' \<and>
      session_state s' = SESSION_FINISHED \<and> port_writes s' = [[0x04]] \<and> rx_buffer s' = []) \<and>
   (0x15 :: byte) \<in> {0x06, 0x15, 0x04, 0x05} \<and>
   on_receive_body sample_SNAPMsg_Parse 1 [0x15, 0x01] False
       ((send_enq 0 (init ''hhl'' 0 True))\<lparr>rx_buffer := [0x15, 0x01]\<rparr>)
     = Inr (1, [0x01], True,
         (init ''hhl'' 0 True)\<lparr>rx_buffer := [0x01], port_writes := [[0x05], [0x05]],
            session_state := SESSION_ACTIVE_MASTER, downlink_buffer := [0x05],
            downlink_retransmit_count := 1, latest_downlink_event_time := 1\<rparr>)"
proof -
  have h: "(0x05 :: byte) \<in> {0x06, 0x15, 0x04, 0x05}" by simp
  have k: "(0x15 :: byte) \<in> {0x06, 0x15, 0x04, 0x05}" by simp
  have i: "session_state ((init ''hhl'' 0 True)\<lparr>rx_buffer := [0x05]\<rparr>) = SESSION_IDLE"
    "rx_buffer ((init ''hhl'' 0 True)\<lparr>rx_buffer := [0x05]\<rparr>) = [0x05]"
    "port_writes ((init ''hhl'' 0 True)\<lparr>rx_buffer := [0x05]\<rparr>) = []"
    by (simp_all add: init_def)
  from control_byte_handling[OF h, of sample_SNAPMsg_Parse 1 "[]" False "(init ''hhl'' 0 True)\<lparr>rx_buffer := [0x05]\<rparr>"]
    control_byte_handling[OF k, of sample_SNAPMsg_Parse 1 "[0x01]" False
      "(send_enq 0 (init ''hhl'' 0 True))\<lparr>rx_buffer := [0x15, 0x01]\<rparr>"]
  show ?thesis using i by (simp add: init_def session_defs ENQ_def)
qed

lemma on_receive_body_stalled:
  assumes "check_control_char data now s = (False, s)" "Parse data = Some (0, nack, frame)"
  shows "on_receive_body SNAPMsg_Parse now data valid s =
     Inr (0, data, valid, on_no_frame 0 data now s)"
proof -
  from Parse_total[of data] assms(2) have "\<not> nack" "frame = None" by simp_all
  then show ?thesis using assms by (simp add: on_receive_body_def)
qed

lemma no_control_char:
  "data \<noteq> [] \<Longrightarrow> take 1 data \<notin> {ACK, NAK, EOT, ENQ} \<Longrightarrow> check_control_char data now s = (False, s)"
  by (simp add: check_control_char_def)

text \<open>
  Claim C6. In a round of the receive loop whose buffer does not start with a control
  byte and on which \<open>Parse\<close> consumes nothing: if the buffer holds at least
  \<open>RX_BUFFER_MAX_LEN\<close> = 1024 bytes, \<open>on_receive\<close> ends with the receive buffer
  empty, a NAK written to the port and the session FINISHED; if it holds fewer, the
  receive buffer and the port are left as they were.
\<close>

theorem rx_buffer_overrun:
  assumes "consumed \<noteq> 0" "data \<noteq> []" "take 1 data \<notin> {ACK, NAK, EOT, ENQ}"
    "Parse data = Some (0, nack, frame)"
  shows "RX_BUFFER_MAX_LEN = 1024 \<and>
     (RX_BUFFER_MAX_LEN \<le> length data \<longrightarrow>
        (\<exists>s'. on_receive_from SNAPMsg_Parse now consumed data valid s = Inr s' \<and>
           rx_buffer s' = [] \<and> port_writes s' = port_writes s @ [NAK] \<and>
           session_state s' = SESSION_FINISHED)) \<and>
     (length data < RX_BUFFER_MAX_LEN \<longrightarrow>
        (\<exists>s'. on_receive_from SNAPMsg_Parse now consumed data valid s = Inr s' \<and>
           rx_buffer s' = rx_buffer s \<and> port_writes s' = port_writes s))"
proof -
  let ?s1 = "on_no_frame 0 data now s"
  have b: "on_receive_body SNAPMsg_Parse now data valid s = Inr (0, data, valid, ?s1)"
    using on_receive_body_stalled[OF no_control_char[OF assms(2,3)] assms(4)] .
  have "on_receive_loop SNAPMsg_Parse now consumed data valid s =
      on_receive_loop SNAPMsg_Parse now 0 data valid ?s1"
    by (rule on_receive_loop_step[OF assms(1,2) b])
  then have l: "on_receive_loop SNAPMsg_Parse now consumed data valid s = Inr (data, valid, ?s1)"
    by (simp add: on_receive_loop_exit)
  have f: "on_receive_from SNAPMsg_Parse now consumed data valid s =
      Inr (on_receive_finish now data valid ?s1)"
    unfolding on_receive_from_def l by simp
  show ?thesis
    unfolding f using assms(2)
    by (simp add: on_receive_finish_def on_no_frame_def session_defs Let_def RX_BUFFER_MAX_LEN_def)
qed

lemma Parse_no_ETX:
  assumes "data = [SOH, PI1, PI2, STX] @ nibbles q @ rest" "q \<noteq> []" "5 \<le> 2 * length q + length rest"
    "length rest = 2 \<or> length rest = 3"
  shows "Parse data = Some (0, False, None)"
proof -
  let ?n = "length q"
  let ?stop = "(length data div 2) * 2 - 2"
  let ?snap = "replicate ((length data - 4) div 2) (0::byte)"
  have dlen: "length data = 2 * ?n + 4 + length rest" unfolding assms(1) by simp
  have d2: "data = [SOH, PI1, PI2, STX] @ (nibbles q @ rest)"
    unfolding assms(1) by simp
  have "5 \<le> length (nibbles q @ rest)" using assms(3) by simp
  note P = Parse_header[OF d2 this]
  have stop: "?stop = 4 + 2 * ?n" unfolding dlen using assms(4) by auto
  have sl: "0 + ?n \<le> length ?snap" unfolding dlen length_replicate by arith
  from scan_loop_nibbles[OF assms(1) _ _ sl, of 4 ?stop 0 0] stop
  obtain snap' where s:
     "scan_loop data 4 ?stop 0 0 ?snap 0 =
      scan_loop data (4 + 2 * ?n) ?stop (0 + sum_bytes (nibbles q)) (xor_bytes 0 (nibbles q)) snap' (0 + ?n)"
    by auto
  have e: "scan_loop data 4 ?stop 0 0 ?snap 0 =
      Some (Exhausted (0 + sum_bytes (nibbles q)) (xor_bytes 0 (nibbles q)) snap')"
    unfolding s by (rule scan_loop_end) (simp add: stop)
  obtain d ds where q: "q = d # ds" using assms(2) by (cases q) auto
  obtain h l where hl: "Encode (uint d) = [h, l]" "0x30 \<le> uint h" using Encode_pair by blast
  have "data ! 4 = h" unfolding assms(1) q by (simp add: nibbles_Cons hl)
  then have "data ! 4 \<noteq> ETX" using nibble_not_ETX[OF hl(2)] by simp
  moreover have "4 < length data" unfolding dlen using assms(2) by simp
  ultimately have "Parse_tail data 0 4 (0 + sum_bytes (nibbles q)) (xor_bytes 0 (nibbles q)) snap'
      = Some (0, False, None)"
    by (intro Parse_tail_no_ETX) simp_all
  then show ?thesis unfolding P e by simp
qed

theorem rx_buffer_overrun_witness:
  "length ([0x01, 0x41, 0x32, 0x02] @ nibbles (replicate 509 0) @ [0x30, 0x30]) = 1024 \<and>
   Parse ([0x01, 0x41, 0x32, 0x02] @ nibbles (replicate 509 0) @ [0x30, 0x30]) = Some (0, False, None) \<and>
   (\<exists>s'. on_receive_from sample_SNAPMsg_Parse 1 1
          ([0x01, 0x41, 0x32, 0x02] @ nibbles (replicate 509 0) @ [0x30, 0x30]) False
          (init ''hhl'' 0 True) = Inr s' \<and>
       rx_buffer s' = [] \<and> port_writes s' = [NAK] \<and> session_state s' = SESSION_FINISHED) \<and>
   Parse [0x61] = Some (0, False, None) \<and>
   (\<exists>s'. on_receive_from sample_SNAPMsg_Parse 1 1 [0x61] False ((init ''hhl'' 0 True)\<lparr>rx_buffer := [0x61]\<rparr>) = Inr s' \<and>
       rx_buffer s' = [0x61] \<and> port_writes s' = [])"
proof -
  let ?big = "[0x01, 0x41, 0x32, 0x02] @ nibbles (replicate 509 0) @ [0x30, 0x30 :: byte]"
  let ?s = "init ''hhl'' 0 True"
  have P: "Parse ?big = Some (0, False, None)"
    by (rule Parse_no_ETX[where q = "replicate 509 0" and rest = "[0x30, 0x30]"])
       (simp_all add: SOH_def PI1_def PI2_def STX_def)
  have h: "(1::nat) \<noteq> 0" "?big \<noteq> []" "take 1 ?big \<notin> {ACK, NAK, EOT, ENQ}"
    by (simp_all add: ACK_def NAK_def EOT_def ENQ_def)
  have len: "length ?big = 1024" by simp
  have P2: "Parse [0x61] = Some (0, False, None)" by (simp add: Parse_short)
  have h2: "[0x61 :: byte] \<noteq> []" "take 1 [0x61 :: byte] \<notin> {ACK, NAK, EOT, ENQ}"
    by (simp_all add: ACK_def NAK_def EOT_def ENQ_def)
  from rx_buffer_overrun[OF h P, of sample_SNAPMsg_Parse 1 False ?s]
    rx_buffer_overrun[OF h(1) h2 P2, of sample_SNAPMsg_Parse 1 False "?s\<lparr>rx_buffer := [0x61]\<rparr>"]
  show ?thesis using P P2 len by (simp add: init_def)
qed

lemma not_control_char:
  "\<not> fst (check_control_char data now s) \<Longrightarrow> check_control_char data now s = (False, s)"
  by (auto simp add: check_control_char_def Let_def split: if_splits)

lemma hhl_content_LogDiscarded:
  "(hhl_content msg = LogDiscarded) = (snap_service_class msg \<in> {91, 92, 94})"
  by (simp add: hhl_content_def Let_def)

lemma on_message_hhl_cases:
  "on_message_hhl msg s =
     (if snap_service_class msg \<in> {91, 92, 94} then Inl (KeyError, s)
      else Inr (case hhl_content msg of
          Forward content \<Rightarrow>
            send_cloud_alarm ((UplinkAlarm msg)\<lparr>alarm_data := remove_cr (alarm_data (UplinkAlarm msg))\<rparr>)
              content s
        | _ \<Rightarrow> s))"
  using hhl_content_LogDiscarded[of msg]
  by (cases "hhl_content msg")
     (simp_all add: on_message_hhl_def log_discarded_msg_def VERBOSE_DEBUG_def Let_def)

lemma on_message_prodex_cases:
  "on_message_prodex msg s =
     (case prodex_content msg of
        None \<Rightarrow> Inl (KeyError, s)
      | Some (content, m) \<Rightarrow>
          Inr (send_cloud_alarm
            ((UplinkAlarm m)\<lparr>alarm_data := remove_cr (content @ '': '' @ alarm_data (UplinkAlarm m))\<rparr>)
            content s))"
  by (simp add: on_message_prodex_def log_discarded_msg_def VERBOSE_DEBUG_def Let_def
        split: option.splits)

lemma dispatch_message_cases:
  "case dispatch_message msg s of
     Inl e \<Rightarrow> discarded (serial_snap_proto s) msg \<and> e = (KeyError, s)
   | Inr s' \<Rightarrow> \<not> discarded (serial_snap_proto s) msg \<and> port_writes s' = port_writes s \<and>
       rx_buffer s' = rx_buffer s \<and> session_state s' = session_state s"
  by (simp add: dispatch_message_def discarded_def on_message_hhl_cases on_message_prodex_cases
        hhl_content_LogDiscarded send_cloud_alarm_def split: option.splits route.splits)

lemma port_writes_send_nak [simp]: "port_writes (send_nak now s) = port_writes s @ [NAK]"
  by (simp add: session_defs Let_def)

lemma port_writes_send_ack [simp]: "port_writes (send_ack now s) = port_writes s @ [ACK]"
  by (simp add: session_defs Let_def)

lemma on_frame_cases:
  "case on_frame SNAPMsg_Parse f v now s of
     Inl (e, s') \<Rightarrow> e = KeyError \<and> \<not> snap_empty (SNAPMsg_Parse f) \<and>
       discarded (serial_snap_proto s) (SNAPMsg_Parse f) \<and> port_writes s' = port_writes s \<and>
       rx_buffer s' = rx_buffer s
   | Inr (v', s') \<Rightarrow>
       \<not> (\<not> snap_empty (SNAPMsg_Parse f) \<and> discarded (serial_snap_proto s) (SNAPMsg_Parse f)) \<and>
       v' = (v \<or> \<not> snap_empty (SNAPMsg_Parse f)) \<and> port_writes s' = port_writes s @ [ACK] \<and>
       rx_buffer s' = rx_buffer s"
proof -
  let ?s1 = "if \<not> session_is_active s then session_begin SESSION_ACTIVE_CLIENT s else s"
  have s1: "serial_snap_proto ?s1 = serial_snap_proto s" "port_writes ?s1 = port_writes s"
    "rx_buffer ?s1 = rx_buffer s"
    by (simp_all add: session_defs)
  show ?thesis
  proof (cases "snap_empty (SNAPMsg_Parse f)")
    case True
    then show ?thesis using s1 by (simp add: on_frame_def Let_def session_defs)
  next
    case False
    show ?thesis
    proof (cases "dispatch_message (SNAPMsg_Parse f) ?s1")
      case (Inl e)
      then show ?thesis
        using dispatch_message_cases[where msg="SNAPMsg_Parse f" and s="?s1"] False s1
        by (simp add: on_frame_def Let_def)
    next
      case (Inr s2)
      then show ?thesis
        using dispatch_message_cases[where msg="SNAPMsg_Parse f" and s="?s1"] False s1
        by (simp add: on_frame_def Let_def session_defs)
    qed
  qed
qed

lemma port_writes_on_no_frame:
  "port_writes (on_no_frame c d now s) =
     port_writes s @ (if c = 0 \<and> RX_BUFFER_MAX_LEN \<le> length d then [NAK] else [])"
  by (simp add: on_no_frame_def session_defs Let_def)

lemma on_receive_body_parsed:
  assumes "\<not> fst (check_control_char data now s)" "Parse data = Some (consumed, nack, frame)"
  shows "case on_receive_body SNAPMsg_Parse now data valid s of
       Inl (e, s') \<Rightarrow> e = KeyError \<and> \<not> nack \<and>
         (\<exists>f. frame = Some f \<and> f \<noteq> [] \<and> \<not> snap_empty (SNAPMsg_Parse f) \<and>
            discarded (serial_snap_proto s) (SNAPMsg_Parse f)) \<and>
         port_writes s' = port_writes s
     | Inr (c, d, v, s') \<Rightarrow> c = consumed \<and>
         \<not> (\<exists>f. frame = Some f \<and> f \<noteq> [] \<and> \<not> snap_empty (SNAPMsg_Parse f) \<and>
            discarded (serial_snap_proto s) (SNAPMsg_Parse f)) \<and>
         port_writes s' = port_writes s @
           (if nack then [NAK]
            else if frame = None \<or> frame = Some []
              then (if consumed = 0 \<and> RX_BUFFER_MAX_LEN \<le> length data then [NAK] else [])
            else [ACK])"
proof -
  note cc = not_control_char[OF assms(1)]
  let ?s = "if consumed \<noteq> 0 then consume_rx_buffer consumed s else s"
  let ?d = "if consumed \<noteq> 0 then rx_buffer ?s else data"
  have pw: "port_writes ?s = port_writes s" "serial_snap_proto ?s = serial_snap_proto s"
    by (simp_all add: consume_rx_buffer_def)
  have nf: "port_writes (on_no_frame consumed ?d now ?s) =
      port_writes s @ (if consumed = 0 \<and> RX_BUFFER_MAX_LEN \<le> length data then [NAK] else [])"
    unfolding port_writes_on_no_frame pw by simp
  from Parse_total[of data] assms(2) have excl: "nack \<longrightarrow> frame = None" by simp
  show ?thesis
  proof (cases nack)
    case True
    then show ?thesis using assms(2) pw excl by (simp add: on_receive_body_def cc Let_def)
  next
    case nn: False
    show ?thesis
    proof (cases "frame = None \<or> frame = Some []")
      case True
      then show ?thesis using assms(2) nn nf
        by (auto simp add: on_receive_body_def cc Let_def)
    next
      case False
      then obtain f where f: "frame = Some f" "f \<noteq> []" by auto
      show ?thesis
      proof (cases "on_frame SNAPMsg_Parse f valid now ?s")
        case (Inl e)
        then show ?thesis
          using on_frame_cases[where SNAPMsg_Parse=SNAPMsg_Parse and f=f and v=valid and now=now and s="?s"] assms(2) nn f pw
          by (simp add: on_receive_body_def cc Let_def split: prod.splits)
      next
        case (Inr r)
        then show ?thesis
          using on_frame_cases[where SNAPMsg_Parse=SNAPMsg_Parse and f=f and v=valid and now=now and s="?s"] assms(2) nn f pw
          by (simp add: on_receive_body_def cc Let_def split: prod.splits)
      qed
    qed
  qed
qed

text \<open>
  Claim C10. Whatever the buffer, a result of \<open>Parse\<close> with a frame has no NAK, and one
  with a NAK has no frame. A round of the receive loop that parses (its buffer does not
  start with a control byte) either raises \<open>KeyError\<close> with nothing written to the
  port, which it does exactly when the result has a frame that is not empty and whose
  message is not empty and is one the classifier of the protocol hands to
  \<^verbatim>\<open>__log_discarded_msg\<close>; or it returns, and then it has handed the port a NAK
  alone when the result has a NAK, an ACK alone when it has a frame that is not empty,
  and otherwise nothing, or a NAK alone on a buffer overrun. It never hands the port
  both a NAK and an ACK.
\<close>

theorem nack_excludes_frame:
  "(Parse data = Some (consumed, nack, frame) \<longrightarrow>
      (frame \<noteq> None \<longrightarrow> \<not> nack) \<and> (nack \<longrightarrow> frame = None)) \<and>
   (\<not> fst (check_control_char data now s) \<and> Parse data = Some (consumed, nack, frame) \<longrightarrow>
      (case on_receive_body SNAPMsg_Parse now data valid s of
         Inl (e, s') \<Rightarrow> e = KeyError \<and> \<not> nack \<and>
           (\<exists>f. frame = Some f \<and> f \<noteq> [] \<and> \<not> snap_empty (SNAPMsg_Parse f) \<and>
              discarded (serial_snap_proto s) (SNAPMsg_Parse f)) \<and>
           port_writes s' = port_writes s
       | Inr (c, d, v, s') \<Rightarrow> c = consumed \<and>
           \<not> (\<exists>f. frame = Some f \<and> f \<noteq> [] \<and> \<not> snap_empty (SNAPMsg_Parse f) \<and>
              discarded (serial_snap_proto s) (SNAPMsg_Parse f)) \<and>
           port_writes s' = port_writes s @
             (if nack then [NAK]
              else if frame = None \<or> frame = Some []
                then (if consumed = 0 \<and> RX_BUFFER_MAX_LEN \<le> length data then [NAK] else [])
              else [ACK]) \<and>
           port_writes s' \<noteq> port_writes s @ [NAK, ACK] \<and>
           port_writes s' \<noteq> port_writes s @ [ACK, NAK]))"
proof (rule conjI)
  show "Parse data = Some (consumed, nack, frame) \<longrightarrow>
      (frame \<noteq> None \<longrightarrow> \<not> nack) \<and> (nack \<longrightarrow> frame = None)"
    using Parse_total[of data] by auto
next
  show "\<not> fst (check_control_char data now s) \<and> Parse data = Some (consumed, nack, frame) \<longrightarrow>
      (case on_receive_body SNAPMsg_Parse now data valid s of
         Inl (e, s') \<Rightarrow> e = KeyError \<and> \<not> nack \<and>
           (\<exists>f. frame = Some f \<and> f \<noteq> [] \<and> \<not> snap_empty (SNAPMsg_Parse f) \<and>
              discarded (serial_snap_proto s) (SNAPMsg_Parse f)) \<and>
           port_writes s' = port_writes s
       | Inr (c, d, v, s') \<Rightarrow> c = consumed \<and>
           \<not> (\<exists>f. frame = Some f \<and> f \<noteq> [] \<and> \<not> snap_empty (SNAPMsg_Parse f) \<and>
              discarded (serial_snap_proto s) (SNAPMsg_Parse f)) \<and>
           port_writes s' = port_writes s @
             (if nack then [NAK]
              else if frame = None \<or> frame = Some []
                then (if consumed = 0 \<and> RX_BUFFER_MAX_LEN \<le> length data then [NAK] else [])
              else [ACK]) \<and>
           port_writes s' \<noteq> port_writes s @ [NAK, ACK] \<and>
           port_writes s' \<noteq> port_writes s @ [ACK, NAK])"
  proof (rule impI)
    assume a: "\<not> fst (check_control_char data now s) \<and> Parse data = Some (consumed, nack, frame)"
    then have b: "case on_receive_body SNAPMsg_Parse now data valid s of
       Inl (e, s') \<Rightarrow> e = KeyError \<and> \<not> nack \<and>
         (\<exists>f. frame = Some f \<and> f \<noteq> [] \<and> \<not> snap_empty (SNAPMsg_Parse f) \<and>
            discarded (serial_snap_proto s) (SNAPMsg_Parse f)) \<and>
         port_writes s' = port_writes s
     | Inr (c, d, v, s') \<Rightarrow> c = consumed \<and>
         \<not> (\<exists>f. frame = Some f \<and> f \<noteq> [] \<and> \<not> snap_empty (SNAPMsg_Parse f) \<and>
            discarded (serial_snap_proto s) (SNAPMsg_Parse f)) \<and>
         port_writes s' = port_writes s @
           (if nack then [NAK]
            else if frame = None \<or> frame = Some []
              then (if consumed = 0 \<and> RX_BUFFER_MAX_LEN \<le> length data then [NAK] else [])
            else [ACK])"
      by (intro on_receive_body_parsed) simp_all
    show "case on_receive_body SNAPMsg_Parse now data valid s of
         Inl (e, s') \<Rightarrow> e = KeyError \<and> \<not> nack \<and>
           (\<exists>f. frame = Some f \<and> f \<noteq> [] \<and> \<not> snap_empty (SNAPMsg_Parse f) \<and>
              discarded (serial_snap_proto s) (SNAPMsg_Parse f)) \<and>
           port_writes s' = port_writes s
       | Inr (c, d, v, s') \<Rightarrow> c = consumed \<and>
           \<not> (\<exists>f. frame = Some f \<and> f \<noteq> [] \<and> \<not> snap_empty (SNAPMsg_Parse f) \<and>
              discarded (serial_snap_proto s) (SNAPMsg_Parse f)) \<and>
           port_writes s' = port_writes s @
             (if nack then [NAK]
              else if frame = None \<or> frame = Some []
                then (if consumed = 0 \<and> RX_BUFFER_MAX_LEN \<le> length data then [NAK] else [])
              else [ACK]) \<and>
           port_writes s' \<noteq> port_writes s @ [NAK, ACK] \<and>
           port_writes s' \<noteq> port_writes s @ [ACK, NAK]"
    proof (cases "on_receive_body SNAPMsg_Parse now data valid s")
      case (Inl e)
      then show ?thesis using b by simp
    next
      case (Inr r)
      then show ?thesis using b by (simp split: prod.splits if_splits)
    qed
  qed
qed

theorem nack_excludes_frame_witness:
  "Parse [0x01, 0x41, 0x32, 0x02, 0x30, 0x31, 0x03, 0x36, 0x31, 0x30, 0x31] = Some (11, False, Some [1]) \<and>
   \<not> fst (check_control_char [0x01, 0x41, 0x32, 0x02, 0x30, 0x31, 0x03, 0x36, 0x31, 0x30, 0x31]
            1 (init ''hhl'' 0 True)) \<and>
   (\<exists>d v s'. on_receive_body sample_SNAPMsg_Parse 1
        [0x01, 0x41, 0x32, 0x02, 0x30, 0x31, 0x03, 0x36, 0x31, 0x30, 0x31] False (init ''hhl'' 0 True)
          = Inr (11, d, v, s') \<and>
      port_writes s' = [ACK]) \<and>
   Parse [0x01, 0x41, 0x32, 0x02, 0x35, 0x3b, 0x03, 0x37, 0x30, 0x30, 0x3e] = Some (11, False, Some [0x5b]) \<and>
   \<not> fst (check_control_char [0x01, 0x41, 0x32, 0x02, 0x35, 0x3b, 0x03, 0x37, 0x30, 0x30, 0x3e]
            1 (init ''hhl'' 0 True)) \<and>
   (\<exists>s'. on_receive_body sample_SNAPMsg_Parse 1
        [0x01, 0x41, 0x32, 0x02, 0x35, 0x3b, 0x03, 0x37, 0x30, 0x30, 0x3e] False (init ''hhl'' 0 True)
          = Inl (KeyError, s') \<and>
      port_writes s' = [])"
proof -
  let ?f = "[0x01, 0x41, 0x32, 0x02, 0x30, 0x31, 0x03, 0x36, 0x31, 0x30, 0x31 :: byte]"
  let ?g = "[0x01, 0x41, 0x32, 0x02, 0x35, 0x3b, 0x03, 0x37, 0x30, 0x30, 0x3e :: byte]"
  let ?s = "init ''hhl'' 0 True"
  have P: "Parse ?f = Some (11, False, Some [1])" by code_simp
  have Q: "Parse ?g = Some (11, False, Some [0x5b])" by code_simp
  have c: "\<not> fst (check_control_char ?f 1 ?s)" "\<not> fst (check_control_char ?g 1 ?s)"
    by (simp_all add: check_control_char_def ACK_def NAK_def EOT_def ENQ_def)
  have i: "serial_snap_proto ?s = ''hhl''" "port_writes ?s = []" by (simp_all add: init_def)
  have d: "\<not> discarded ''hhl'' (sample_SNAPMsg_Parse [1])" "discarded ''hhl'' (sample_SNAPMsg_Parse [0x5b])"
    "\<not> snap_empty (sample_SNAPMsg_Parse [0x5b])"
    by (simp_all add: discarded_def hhl_content_LogDiscarded sample_SNAPMsg_Parse_def)
  have 1: "\<exists>d v s'. on_receive_body sample_SNAPMsg_Parse 1 ?f False ?s = Inr (11, d, v, s') \<and>
      port_writes s' = [ACK]"
    using nack_excludes_frame[of ?f 11 False "Some [1]" 1 ?s sample_SNAPMsg_Parse False] P c(1) i d
    by (cases "on_receive_body sample_SNAPMsg_Parse 1 ?f False ?s") (auto split: prod.splits)
  have 2: "\<exists>s'. on_receive_body sample_SNAPMsg_Parse 1 ?g False ?s = Inl (KeyError, s') \<and>
      port_writes s' = []"
    using nack_excludes_frame[of ?g 11 False "Some [0x5b]" 1 ?s sample_SNAPMsg_Parse False] Q c(2) i d
    by (cases "on_receive_body sample_SNAPMsg_Parse 1 ?g False ?s") (auto split: prod.splits)
  show ?thesis using P Q c 1 2 by blast
qed

subsection \<open>The end of a reception\<close>

text \<open>
  A message that the classifier discards ends the reception with \<open>KeyError\<close>, whatever
  the decoder of the SNAP layer is: the frame has been consumed and the client session
  begun, and nothing else has changed.
\<close>

lemma on_receive_discarded:
  assumes "\<not> fst (check_control_char data now s)" "data \<noteq> []"
    "Parse data = Some (consumed, False, Some f)" "f \<noteq> []"
    "\<not> snap_empty (SNAPMsg_Parse f)" "discarded (serial_snap_proto s) (SNAPMsg_Parse f)"
  shows "on_receive SNAPMsg_Parse now data s =
     Inl (KeyError,
       (if session_is_active s then s\<lparr>rx_buffer := drop consumed (rx_buffer s)\<rparr>
        else s\<lparr>rx_buffer := drop consumed (rx_buffer s), session_state := SESSION_ACTIVE_CLIENT,
               downlink_buffer := []\<rparr>))"
proof -
  note cc = not_control_char[OF assms(1)]
  let ?s = "consume_rx_buffer consumed s"
  let ?s1 = "if \<not> session_is_active ?s then session_begin SESSION_ACTIVE_CLIENT ?s else ?s"
  from Parse_total[of data] assms(3) have c0: "consumed \<noteq> 0" by auto
  have p: "serial_snap_proto ?s1 = serial_snap_proto s" by (simp add: session_defs)
  have "dispatch_message (SNAPMsg_Parse f) ?s1 = Inl (KeyError, ?s1)"
    using dispatch_message_cases[where msg="SNAPMsg_Parse f" and s="?s1"] assms(6)
    unfolding p by (cases "dispatch_message (SNAPMsg_Parse f) ?s1") simp_all
  then have "on_frame SNAPMsg_Parse f False now ?s = Inl (KeyError, ?s1)"
    using assms(5) by (simp add: on_frame_def Let_def)
  then have b: "on_receive_body SNAPMsg_Parse now data False s = Inl (KeyError, ?s1)"
    unfolding on_receive_body_def cc using assms(3,4) c0 by (simp add: Let_def)
  have "on_receive_loop SNAPMsg_Parse now 1 data False s = Inl (KeyError, ?s1)"
    by (rule on_receive_loop_raise[OF _ assms(2) b]) simp
  then show ?thesis
    by (simp add: on_receive_def on_receive_from_def session_defs)
qed

text \<open>
  Claim C5, which the code breaks. The protocol is \<open>hhl\<close>, linefault is active and the
  liveness notification has been sent. The receive buffer holds one well-formed frame
  whose message is not empty and has service class 91, one of the three classes that
  \<^verbatim>\<open>on_message_hhl\<close> drops through \<^verbatim>\<open>__log_discarded_msg\<close>. The message is valid
  (\<^verbatim>\<open>valid_msg_parsed\<close> has been set), but \<open>on_receive\<close> raises \<open>KeyError\<close> out of
  the loop: no ACK is written, the time of the latest uplink event stays 0, linefault
  stays active and no fault-over notification is emitted. The same frame with service
  class 1 is forwarded and acknowledged, and there \<open>on_receive\<close> returns with the
  time set, linefault cleared and one fault-over notification.
\<close>

theorem discarded_message_aborts_reception:
  "on_receive sample_SNAPMsg_Parse 1
       [0x01, 0x41, 0x32, 0x02, 0x35, 0x3b, 0x03, 0x37, 0x30, 0x30, 0x3e]
       ((init ''hhl'' 0 True)
          \<lparr>rx_buffer := [0x01, 0x41, 0x32, 0x02, 0x35, 0x3b, 0x03, 0x37, 0x30, 0x30, 0x3e],
           active_faults := [''linefault''], line_fault_over_msg_sent := True\<rparr>)
     = Inl (KeyError,
         \<lparr>port = True, diag_timer = True, rx_buffer = [], port_writes = [], notifications = [],
          serial_snap_proto = ''hhl'', message_counter = 0,
          session_state = SESSION_ACTIVE_CLIENT, downlink_buffer = [],
          downlink_retransmit_count = 0, latest_downlink_event_time = 0,
          latest_uplink_event_time = 0, active_faults = [''linefault''],
          line_fault_over_msg_sent = True\<rparr>) \<and>
   on_receive sample_SNAPMsg_Parse 1
       [0x01, 0x41, 0x32, 0x02, 0x30, 0x31, 0x03, 0x36, 0x31, 0x30, 0x31]
       ((init ''hhl'' 0 True)
          \<lparr>rx_buffer := [0x01, 0x41, 0x32, 0x02, 0x30, 0x31, 0x03, 0x36, 0x31, 0x30, 0x31],
           active_faults := [''linefault''], line_fault_over_msg_sent := True\<rparr>)
     = Inr
         \<lparr>port = True, diag_timer = True, rx_buffer = [], port_writes = [[0x06]],
          notifications =
            [CloudAlarm (UplinkAlarm (sample_SNAPMsg_Parse [1])) ''Keskuksen linjahalytys'',
             FaultOver ''linefault over''],
          serial_snap_proto = ''hhl'', message_counter = 0,
          session_state = SESSION_FINISHED, downlink_buffer = [],
          downlink_retransmit_count = 0, latest_downlink_event_time = 1,
          latest_uplink_event_time = 1, active_faults = [],
          line_fault_over_msg_sent = True\<rparr>"
proof -
  let ?f = "[0x01, 0x41, 0x32, 0x02, 0x30, 0x31, 0x03, 0x36, 0x31, 0x30, 0x31 :: byte]"
  let ?g = "[0x01, 0x41, 0x32, 0x02, 0x35, 0x3b, 0x03, 0x37, 0x30, 0x30, 0x3e :: byte]"
  let ?sf = "(init ''hhl'' 0 True)\<lparr>rx_buffer := ?f, active_faults := [''linefault''],
      line_fault_over_msg_sent := True\<rparr>"
  let ?sg = "(init ''hhl'' 0 True)\<lparr>rx_buffer := ?g, active_faults := [''linefault''],
      line_fault_over_msg_sent := True\<rparr>"
  let ?eg = "\<lparr>port = True, diag_timer = True, rx_buffer = [], port_writes = [], notifications = [],
          serial_snap_proto = ''hhl'', message_counter = 0,
          session_state = SESSION_ACTIVE_CLIENT, downlink_buffer = [],
          downlink_retransmit_count = 0, latest_downlink_event_time = 0,
          latest_uplink_event_time = 0, active_faults = [''linefault''],
          line_fault_over_msg_sent = True\<rparr>"
  let ?ef = "\<lparr>port = True, diag_timer = True, rx_buffer = [], port_writes = [[0x06]],
          notifications =
            [CloudAlarm (UplinkAlarm (sample_SNAPMsg_Parse [1])) ''Keskuksen linjahalytys''],
          serial_snap_proto = ''hhl'', message_counter = 0,
          session_state = SESSION_ACTIVE_CLIENT, downlink_buffer = [0x06],
          downlink_retransmit_count = 0, latest_downlink_event_time = 1,
          latest_uplink_event_time = 0, active_faults = [''linefault''],
          line_fault_over_msg_sent = True\<rparr>"
  have P: "Parse ?f = Some (11, False, Some [1])" by code_simp
  have Q: "Parse ?g = Some (11, False, Some [0x5b])" by code_simp
  have c: "check_control_char ?f 1 ?sf = (False, ?sf)" "check_control_char ?g 1 ?sg = (False, ?sg)"
    by (simp_all add: check_control_char_def ACK_def NAK_def EOT_def ENQ_def)
  have m: "hhl_content (sample_SNAPMsg_Parse [1]) = Forward ''Keskuksen linjahalytys''"
    by (simp add: hhl_content_def sample_SNAPMsg_Parse_def Let_def)
  have u: "remove_cr (alarm_data (UplinkAlarm (sample_SNAPMsg_Parse [1]))) =
      alarm_data (UplinkAlarm (sample_SNAPMsg_Parse [1]))"
    by (simp add: remove_cr_def UplinkAlarm_def sample_SNAPMsg_Parse_def char_of_def)
  have d: "\<not> snap_empty (sample_SNAPMsg_Parse [0x5b])"
    "discarded (serial_snap_proto ?sg) (sample_SNAPMsg_Parse [0x5b])"
    by (simp_all add: discarded_def hhl_content_LogDiscarded sample_SNAPMsg_Parse_def init_def)
  have g: "on_receive sample_SNAPMsg_Parse 1 ?g ?sg = Inl (KeyError, ?eg)"
    using on_receive_discarded[where SNAPMsg_Parse=sample_SNAPMsg_Parse and now=1 and data="?g"
        and s="?sg" and consumed=11 and f="[0x5b]"] Q d c(2)
    by (simp add: init_def session_defs)
  have bf: "on_receive_body sample_SNAPMsg_Parse 1 ?f False ?sf = Inr (11, [], True, ?ef)"
    unfolding on_receive_body_def c P
    by (simp add: on_frame_def dispatch_message_def on_message_hhl_def m u
          session_defs init_def Let_def ACK_def)
       (simp add: sample_SNAPMsg_Parse_def)
  have "on_receive_loop sample_SNAPMsg_Parse 1 1 ?f False ?sf =
      on_receive_loop sample_SNAPMsg_Parse 1 11 [] True ?ef"
    by (rule on_receive_loop_step[OF _ _ bf]) simp_all
  then have "on_receive_loop sample_SNAPMsg_Parse 1 1 ?f False ?sf = Inr ([], True, ?ef)"
    by (simp add: on_receive_loop_exit)
  then have f: "on_receive sample_SNAPMsg_Parse 1 ?f ?sf = Inr (on_receive_finish 1 [] True ?ef)"
    by (simp add: on_receive_def on_receive_from_def)
  show ?thesis unfolding g f
    by (simp add: on_receive_finish_def session_defs Let_def)
qed

end
